theory Spec2Isabelle
  imports Complex_Main
begin

section \<open>Constants and tables of the slingshot game\<close>

text \<open>
  The embedding follows \<^verbatim>\<open>src/components/GeminiSlingshot.tsx\<close> and the advisor
  service \<^verbatim>\<open>src/unnamed/part_000\<close>. JavaScript numbers are modelled exactly:
  grid indices and scores are integers, pixel coordinates, distances and multipliers are
  reals (no rounding of the double arithmetic is modelled).
\<close>

definition BUBBLE_RADIUS :: real where
  "BUBBLE_RADIUS = 22"

definition ROW_HEIGHT :: real where
  "ROW_HEIGHT = BUBBLE_RADIUS * sqrt 3"

definition GRID_COLS :: nat where
  "GRID_COLS = 12"

definition GRID_ROWS :: nat where
  "GRID_ROWS = 14"

definition MAX_DRAG_DIST :: real where
  "MAX_DRAG_DIST = 180"

definition MIN_FORCE_MULT :: real where
  "MIN_FORCE_MULT = 15 / 100"

definition MAX_FORCE_MULT :: real where
  "MAX_FORCE_MULT = 45 / 100"

datatype Difficulty = Easy | Medium | Hard | VeryHard

record DifficultyConfig =
  startingRows :: int
  newRowFrequency :: int
  pointsMultiplier :: real

fun DIFFICULTY_SETTINGS :: "Difficulty \<Rightarrow> DifficultyConfig" where
  "DIFFICULTY_SETTINGS Easy =
     \<lparr>startingRows = 3, newRowFrequency = 12, pointsMultiplier = 8 / 10\<rparr>"
| "DIFFICULTY_SETTINGS Medium =
     \<lparr>startingRows = 5, newRowFrequency = 8, pointsMultiplier = 1\<rparr>"
| "DIFFICULTY_SETTINGS Hard =
     \<lparr>startingRows = 7, newRowFrequency = 5, pointsMultiplier = 15 / 10\<rparr>"
| "DIFFICULTY_SETTINGS VeryHard =
     \<lparr>startingRows = 9, newRowFrequency = 3, pointsMultiplier = 25 / 10\<rparr>"

datatype BubbleColor = Red | Blue | Green | Yellow | Purple | Orange

record ColorConfig =
  hex :: string
  points :: int
  label :: string

fun COLOR_CONFIG :: "BubbleColor \<Rightarrow> ColorConfig" where
  "COLOR_CONFIG Red = \<lparr>hex = ''#ef5350'', points = 100, label = ''Red''\<rparr>"
| "COLOR_CONFIG Blue = \<lparr>hex = ''#42a5f5'', points = 150, label = ''Blue''\<rparr>"
| "COLOR_CONFIG Green = \<lparr>hex = ''#66bb6a'', points = 200, label = ''Green''\<rparr>"
| "COLOR_CONFIG Yellow = \<lparr>hex = ''#ffee58'', points = 250, label = ''Yellow''\<rparr>"
| "COLOR_CONFIG Purple = \<lparr>hex = ''#ab47bc'', points = 300, label = ''Purple''\<rparr>"
| "COLOR_CONFIG Orange = \<lparr>hex = ''#ffa726'', points = 500, label = ''Orange''\<rparr>"

definition COLOR_KEYS :: "BubbleColor list" where
  "COLOR_KEYS = [Red, Blue, Green, Yellow, Purple, Orange]"


section \<open>Tokens and grid topology\<close>

type_synonym Point = "real \<times> real"

text \<open>
  A \<^verbatim>\<open>Bubble\<close> of the source: \<^verbatim>\<open>{id, row, col, x, y, color, active}\<close>. The fields
  \<^verbatim>\<open>id\<close>, \<^verbatim>\<open>x\<close> and \<^verbatim>\<open>y\<close> are named \<open>bubbleId\<close>, \<open>posX\<close> and \<open>posY\<close> here.
\<close>

record Bubble =
  bubbleId :: string
  row :: int
  col :: int
  posX :: real
  posY :: real
  color :: BubbleColor
  active :: bool

text \<open>
  JavaScript's \<^verbatim>\<open>%\<close> truncates towards zero: the result has the sign of the dividend.
\<close>

definition jsRem :: "int \<Rightarrow> int \<Rightarrow> int" where
  "jsRem a b = (if a < 0 then - ((- a) mod \<bar>b\<bar>) else a mod \<bar>b\<bar>)"

definition getBubblePos :: "int \<Rightarrow> int \<Rightarrow> real \<Rightarrow> Point" where
  "getBubblePos r c width =
     (let xOffset = (width - (real GRID_COLS * BUBBLE_RADIUS * 2)) / 2 + BUBBLE_RADIUS;
          isOdd = (jsRem r 2 \<noteq> 0);
          x = xOffset + real_of_int c * (BUBBLE_RADIUS * 2) + (if isOdd then BUBBLE_RADIUS else 0);
          y = BUBBLE_RADIUS + real_of_int r * ROW_HEIGHT
      in (x, y))"

definition isNeighbor :: "Bubble \<Rightarrow> Bubble \<Rightarrow> bool" where
  "isNeighbor a b =
     (let dr = row b - row a;
          dc = col b - col a
      in if \<bar>dr\<bar> > 1 then False
         else if dr = 0 then \<bar>dc\<bar> = 1
         else if jsRem (row a) 2 \<noteq> 0 then (dc = 0 \<or> dc = 1)
         else (dc = - 1 \<or> dc = 0))"

section \<open>Accuracy and scoring\<close>

text \<open>
  The accuracy block of the collision branch of \<^verbatim>\<open>onResults\<close>: label, bonus and
  colour start as \<^verbatim>\<open>""\<close>, \<^verbatim>\<open>1.0\<close> and \<^verbatim>\<open>"#ffffff"\<close> and are overwritten only
  when a target was stored at launch.
\<close>

definition distance :: "Point \<Rightarrow> Point \<Rightarrow> real" where
  "distance p q = sqrt ((fst p - fst q)\<^sup>2 + (snd p - snd q)\<^sup>2)"

record Accuracy =
  accuracyLabel :: string
  accuracyBonus :: real
  accuracyColor :: string

definition accuracyOfDistance :: "real \<Rightarrow> Accuracy" where
  "accuracyOfDistance distToSuggested =
     (if distToSuggested < BUBBLE_RADIUS then
        \<lparr>accuracyLabel = ''CRITICAL HIT!'', accuracyBonus = 2, accuracyColor = ''#fdd835''\<rparr>
      else if distToSuggested < BUBBLE_RADIUS * (25 / 10) then
        \<lparr>accuracyLabel = ''GREAT AIM!'', accuracyBonus = 15 / 10, accuracyColor = ''#42a5f5''\<rparr>
      else
        \<lparr>accuracyLabel = ''OFF TARGET'', accuracyBonus = 1, accuracyColor = ''#9e9e9e''\<rparr>)"

definition accuracyCalculation :: "Point option \<Rightarrow> Point \<Rightarrow> Accuracy" where
  "accuracyCalculation activeShotTarget best =
     (case activeShotTarget of
        None \<Rightarrow> \<lparr>accuracyLabel = [], accuracyBonus = 1, accuracyColor = ''#ffffff''\<rparr>
      | Some target \<Rightarrow> accuracyOfDistance (distance best target))"

definition pointsGained :: "nat \<Rightarrow> BubbleColor \<Rightarrow> Difficulty \<Rightarrow> real \<Rightarrow> int" where
  "pointsGained n c difficulty bonus =
     \<lfloor>real n * real_of_int (points (COLOR_CONFIG c))
        * pointsMultiplier (DIFFICULTY_SETTINGS difficulty)
        * (if n > 3 then 15 / 10 else 1) * bonus\<rfloor>"

section \<open>Nearest free cell\<close>

text \<open>
  The snap-to-grid scan of the collision branch: two nested loops over the rows below
  \<^verbatim>\<open>GRID_ROWS\<close> and the columns of each row (one column fewer in odd rows), skipping a
  cell that an active token occupies and keeping the first cell whose distance to the ball
  is strictly smaller than the best so far. \<^verbatim>\<open>bestDist\<close> starts at \<^verbatim>\<open>Infinity\<close>,
  modelled as \<open>None\<close>; the other four variables start at 0.
\<close>

definition gridCells :: "(int \<times> int) list" where
  "gridCells =
     [(int r, int c).
        r \<leftarrow> [0..<GRID_ROWS],
        c \<leftarrow> [0..<(if r mod 2 \<noteq> 0 then GRID_COLS - 1 else GRID_COLS)]]"

type_synonym Best = "real option \<times> int \<times> int \<times> real \<times> real"

definition occupied :: "Bubble list \<Rightarrow> int \<times> int \<Rightarrow> bool" where
  "occupied bs cell = list_ex (\<lambda>b. active b \<and> row b = fst cell \<and> col b = snd cell) bs"

definition belowBest :: "real \<Rightarrow> real option \<Rightarrow> bool" where
  "belowBest d bestDist = (case bestDist of None \<Rightarrow> True | Some e \<Rightarrow> d < e)"

definition scanCell :: "real \<Rightarrow> Bubble list \<Rightarrow> Point \<Rightarrow> Best \<Rightarrow> int \<times> int \<Rightarrow> Best" where
  "scanCell width bs ball best cell =
     (let pos = getBubblePos (fst cell) (snd cell) width
      in if occupied bs cell then best
         else let d = distance ball pos
              in if belowBest d (fst best) then (Some d, fst cell, snd cell, fst pos, snd pos)
                 else best)"

definition nearestFreeCell :: "real \<Rightarrow> Bubble list \<Rightarrow> Point \<Rightarrow> Best" where
  "nearestFreeCell width bs ball = foldl (scanCell width bs ball) (None, 0, 0, 0, 0) gridCells"

section \<open>Game state\<close>

text \<open>
  The mutable cells of the component that the modelled functions read or write. Particles
  (random velocities) and sounds are left out: no modelled function reads them.
\<close>

record FloatingScore =
  fsX :: real
  fsY :: real
  fsValue :: "int option"
  fsLife :: real
  fsColor :: string
  fsLabel :: "string option"
  fsIsSpecial :: bool

record GameState =
  bubbles :: "Bubble list"
  score :: int
  shotsTaken :: int
  selectedColor :: BubbleColor
  availableColors :: "BubbleColor list"
  floatingScores :: "FloatingScore list"
  showSkipConfirm :: bool
  captureRequest :: bool
  isPinching :: bool
  isFlying :: bool
  flightStartTime :: real
  ballPos :: Point
  ballVel :: Point
  anchorPos :: Point
  aimTarget :: "Point option"
  activeShotTarget :: "Point option"

definition spawnFloatingScore ::
  "real \<Rightarrow> real \<Rightarrow> int option \<Rightarrow> string \<Rightarrow> string option \<Rightarrow> bool \<Rightarrow> GameState \<Rightarrow> GameState" where
  "spawnFloatingScore px py v c l special st =
     st\<lparr>floatingScores := floatingScores st @
        [\<lparr>fsX = px, fsY = py, fsValue = v, fsLife = 1, fsColor = c, fsLabel = l,
          fsIsSpecial = special\<rparr>]\<rparr>"

text \<open>
  \<^verbatim>\<open>Array.from(new Set(...))\<close> keeps the first occurrence of each colour, in order.
\<close>

definition insertionOrder :: "'a list \<Rightarrow> 'a list" where
  "insertionOrder xs = fold (\<lambda>v acc. if v \<in> set acc then acc else acc @ [v]) xs []"

definition updateAvailableColors :: "GameState \<Rightarrow> GameState" where
  "updateAvailableColors st =
     (let colors = insertionOrder (map color (filter active (bubbles st)));
          st1 = st\<lparr>availableColors := colors\<rparr>
      in case colors of
           [] \<Rightarrow> st1
         | c # _ \<Rightarrow> if selectedColor st \<notin> set colors then st1\<lparr>selectedColor := c\<rparr> else st1)"

section \<open>Rendering numbers in template strings\<close>

fun showNat :: "nat \<Rightarrow> string" where
  "showNat n =
     (if n < 10 then [''0123456789'' ! n]
      else showNat (n div 10) @ [''0123456789'' ! (n mod 10)])"

declare showNat.simps [simp del]

definition showInt :: "int \<Rightarrow> string" where
  "showInt i = (if i < 0 then CHR ''-'' # showNat (nat (- i)) else showNat (nat i))"

section \<open>Row growth\<close>

text \<open>
  \<^verbatim>\<open>addNewRow(width)\<close>. The clock (\<^verbatim>\<open>Date.now()\<close>) and the random colour drawn for
  each column are parameters: \<open>now c\<close> and \<open>draw c\<close> are the values read while column \<open>c\<close>
  is pushed.
\<close>

definition shiftDown :: "real \<Rightarrow> Bubble \<Rightarrow> Bubble" where
  "shiftDown width b =
     (let r = row b + 1;
          pos = getBubblePos r (col b) width
      in b\<lparr>row := r, posX := fst pos, posY := snd pos\<rparr>)"

definition spawnRow :: "real \<Rightarrow> (nat \<Rightarrow> nat) \<Rightarrow> (nat \<Rightarrow> BubbleColor) \<Rightarrow> Bubble list" where
  "spawnRow width now draw =
     (let newRowIndex = (0::int);
          isOdd = (jsRem newRowIndex 2 \<noteq> 0);
          cols = (if isOdd then GRID_COLS - 1 else GRID_COLS)
      in map (\<lambda>c. let pos = getBubblePos newRowIndex (int c) width
                   in \<lparr>bubbleId = showNat (now c) @ ''-'' @ showInt newRowIndex @ ''-'' @ showNat c,
                       row = newRowIndex, col = int c, posX = fst pos, posY = snd pos,
                       color = draw c, active = True\<rparr>)
           [0..<cols])"

definition addNewRow ::
  "real \<Rightarrow> (nat \<Rightarrow> nat) \<Rightarrow> (nat \<Rightarrow> BubbleColor) \<Rightarrow> GameState \<Rightarrow> GameState" where
  "addNewRow width now draw st =
     updateAvailableColors
       (st\<lparr>bubbles := map (shiftDown width) (bubbles st) @ spawnRow width now draw\<rparr>)"

section \<open>Match detection\<close>

text \<open>
  The loop of \<^verbatim>\<open>checkMatches\<close>. \<^verbatim>\<open>toCheck\<close> is a stack: \<^verbatim>\<open>pop\<close> takes the last
  element of the array and \<^verbatim>\<open>push(...xs)\<close> appends \<open>xs\<close>, so the array is held here
  top first, and pushing \<open>xs\<close> puts \<open>rev xs\<close> in front. \<^verbatim>\<open>visited\<close> is the set of ids,
  \<^verbatim>\<open>matches\<close> grows at its end. The loop returns both.
\<close>

function floodFill ::
  "Bubble list \<Rightarrow> BubbleColor \<Rightarrow> Bubble list \<Rightarrow> string list \<Rightarrow> Bubble list
     \<Rightarrow> string list \<times> Bubble list" where
  "floodFill bs startColor [] visited matches = (visited, matches)"
| "floodFill bs startColor (cur # stack) visited matches =
     (if bubbleId cur \<in> set visited then floodFill bs startColor stack visited matches
      else if color cur = startColor then
        floodFill bs startColor
          (rev (filter (\<lambda>b. active b \<and> bubbleId b \<notin> set (bubbleId cur # visited)
                              \<and> isNeighbor cur b) bs) @ stack)
          (bubbleId cur # visited) (matches @ [cur])
      else floodFill bs startColor stack (bubbleId cur # visited) matches)"
  by pat_completeness auto
termination
proof (relation "measures
    [\<lambda>(bs, sc, toCheck, visited, matches).
        card (bubbleId ` (set bs \<union> set toCheck) - set visited),
     \<lambda>(bs, sc, toCheck, visited, matches). length toCheck]")
  show "wf (measures
    [\<lambda>(bs, sc, toCheck, visited, matches).
        card (bubbleId ` (set bs \<union> set toCheck) - set visited),
     \<lambda>(bs, sc, toCheck, visited, matches). length toCheck])"
    by simp
next
  fix bs :: "Bubble list" and startColor :: BubbleColor and cur :: Bubble
    and stack :: "Bubble list" and visited :: "string list" and matches :: "Bubble list"
  assume "bubbleId cur \<in> set visited"
  have "bubbleId ` (set bs \<union> set stack) - set visited
          \<subseteq> bubbleId ` (set bs \<union> set (cur # stack)) - set visited"
    by auto
  then have "card (bubbleId ` (set bs \<union> set stack) - set visited)
          \<le> card (bubbleId ` (set bs \<union> set (cur # stack)) - set visited)"
    by (intro card_mono) auto
  then show "((bs, startColor, stack, visited, matches),
              (bs, startColor, cur # stack, visited, matches))
        \<in> measures
    [\<lambda>(bs, sc, toCheck, visited, matches).
        card (bubbleId ` (set bs \<union> set toCheck) - set visited),
     \<lambda>(bs, sc, toCheck, visited, matches). length toCheck]"
    by auto
next
  fix bs :: "Bubble list" and startColor :: BubbleColor and cur :: Bubble
    and stack :: "Bubble list" and visited :: "string list" and matches :: "Bubble list"
  assume fresh: "bubbleId cur \<notin> set visited"
  let ?new = "rev (filter (\<lambda>b. active b \<and> bubbleId b \<notin> set (bubbleId cur # visited)
                              \<and> isNeighbor cur b) bs) @ stack"
  have "bubbleId ` (set bs \<union> set ?new) - set (bubbleId cur # visited)
          \<subset> bubbleId ` (set bs \<union> set (cur # stack)) - set visited"
    using fresh by auto
  then have "card (bubbleId ` (set bs \<union> set ?new) - set (bubbleId cur # visited))
          < card (bubbleId ` (set bs \<union> set (cur # stack)) - set visited)"
    by (intro psubset_card_mono) auto
  then show "((bs, startColor, ?new, bubbleId cur # visited, matches @ [cur]),
              (bs, startColor, cur # stack, visited, matches))
        \<in> measures
    [\<lambda>(bs, sc, toCheck, visited, matches).
        card (bubbleId ` (set bs \<union> set toCheck) - set visited),
     \<lambda>(bs, sc, toCheck, visited, matches). length toCheck]"
    by auto
next
  fix bs :: "Bubble list" and startColor :: BubbleColor and cur :: Bubble
    and stack :: "Bubble list" and visited :: "string list" and matches :: "Bubble list"
  assume fresh: "bubbleId cur \<notin> set visited"
  have "bubbleId ` (set bs \<union> set stack) - set (bubbleId cur # visited)
          \<subset> bubbleId ` (set bs \<union> set (cur # stack)) - set visited"
    using fresh by auto
  then have "card (bubbleId ` (set bs \<union> set stack) - set (bubbleId cur # visited))
          < card (bubbleId ` (set bs \<union> set (cur # stack)) - set visited)"
    by (intro psubset_card_mono) auto
  then show "((bs, startColor, stack, bubbleId cur # visited, matches),
              (bs, startColor, cur # stack, visited, matches))
        \<in> measures
    [\<lambda>(bs, sc, toCheck, visited, matches).
        card (bubbleId ` (set bs \<union> set toCheck) - set visited),
     \<lambda>(bs, sc, toCheck, visited, matches). length toCheck]"
    by auto
qed

text \<open>
  \<^verbatim>\<open>checkMatches(start)\<close>: a group of at least three is deactivated (the objects of
  \<^verbatim>\<open>matches\<close> are the objects of the grid, so the grid entries equal to a match lose
  \<^verbatim>\<open>active\<close>), the points are shown at the start token and added to the score.
\<close>

definition deactivate :: "Bubble list \<Rightarrow> Bubble list \<Rightarrow> Bubble list" where
  "deactivate matches bs = map (\<lambda>b. if b \<in> set matches then b\<lparr>active := False\<rparr> else b) bs"

definition checkMatches :: "Bubble \<Rightarrow> Difficulty \<Rightarrow> real \<Rightarrow> GameState \<Rightarrow> GameState" where
  "checkMatches start difficulty bonus st =
     (let matches = snd (floodFill (bubbles st) (color start) [start] [] [])
      in if length matches \<ge> 3 then
           (let st1 = st\<lparr>bubbles := deactivate matches (bubbles st)\<rparr>;
                gained = pointsGained (length matches) (color start) difficulty bonus;
                st2 = spawnFloatingScore (posX start) (posY start) (Some gained)
                        (hex (COLOR_CONFIG (color start))) None False st1
            in st2\<lparr>score := score st2 + gained\<rparr>)
         else st)"

section \<open>Shot lifecycle\<close>

text \<open>
  The body of the \<^verbatim>\<open>if (collision)\<close> branch of \<^verbatim>\<open>onResults\<close>: snap the ball to the
  nearest free cell, rate the accuracy against the target stored at launch, push the new
  token, resolve its match, refresh the colours and return the ball to the anchor.
\<close>

definition resolveCollision :: "real \<Rightarrow> nat \<Rightarrow> Difficulty \<Rightarrow> GameState \<Rightarrow> GameState" where
  "resolveCollision width now difficulty st =
     (let st1 = st\<lparr>isFlying := False\<rparr>;
          (bestDist, bestRow, bestCol, bestX, bestY) =
             nearestFreeCell width (bubbles st1) (ballPos st1);
          acc = accuracyCalculation (activeShotTarget st1) (bestX, bestY);
          st2 = (case activeShotTarget st1 of
                   None \<Rightarrow> st1
                 | Some target \<Rightarrow>
                     spawnFloatingScore bestX (bestY - 40) None (accuracyColor acc)
                       (Some (accuracyLabel acc)) (accuracyBonus acc > 1) st1);
          newB = \<lparr>bubbleId = showInt bestRow @ ''-'' @ showInt bestCol @ ''-'' @ showNat now,
                  row = bestRow, col = bestCol, posX = bestX, posY = bestY,
                  color = selectedColor st2, active = True\<rparr>;
          st3 = st2\<lparr>bubbles := bubbles st2 @ [newB]\<rparr>;
          st4 = checkMatches newB difficulty (accuracyBonus acc) st3;
          st5 = updateAvailableColors st4
      in st5\<lparr>ballPos := anchorPos st5, captureRequest := True\<rparr>)"

text \<open>
  The release branch of \<^verbatim>\<open>onResults\<close> (the pinch ends while the ball is held):
  \<open>isLocked\<close> is \<^verbatim>\<open>isAiThinkingRef.current || showSkipConfirm\<close>, \<open>perfNow\<close> is
  \<^verbatim>\<open>performance.now()\<close>.
\<close>

definition releaseShot ::
  "bool \<Rightarrow> real \<Rightarrow> real \<Rightarrow> Difficulty \<Rightarrow> (nat \<Rightarrow> nat) \<Rightarrow> (nat \<Rightarrow> BubbleColor)
     \<Rightarrow> GameState \<Rightarrow> GameState" where
  "releaseShot isLocked width perfNow difficulty now draw st =
     (let st1 = st\<lparr>isPinching := False\<rparr>
      in if \<not> isLocked then
           (let dx = fst (anchorPos st1) - fst (ballPos st1);
                dy = snd (anchorPos st1) - snd (ballPos st1);
                stretchDist = sqrt (dx * dx + dy * dy)
            in if stretchDist > 30 then
                 (let velMult = MIN_FORCE_MULT + (MAX_FORCE_MULT - MIN_FORCE_MULT)
                                  * (min (stretchDist / MAX_DRAG_DIST) 1)\<^sup>2;
                      st2 = st1\<lparr>isFlying := True, flightStartTime := perfNow,
                                 ballVel := (dx * velMult, dy * velMult),
                                 shotsTaken := shotsTaken st1 + 1,
                                 activeShotTarget := aimTarget st1\<rparr>;
                      diffCfg = DIFFICULTY_SETTINGS difficulty
                  in if jsRem (shotsTaken st2) (newRowFrequency diffCfg) = 0
                     then addNewRow width now draw st2 else st2)
               else st1\<lparr>ballPos := anchorPos st1\<rparr>)
         else st1\<lparr>ballPos := anchorPos st1\<rparr>)"

text \<open>
  \<^verbatim>\<open>skipTurn()\<close>, the handler of the confirmation button. \<open>canvas\<close> is the width of
  \<^verbatim>\<open>canvasRef.current\<close>, \<open>None\<close> when the canvas is not mounted.
\<close>

definition skipTurn ::
  "real option \<Rightarrow> Difficulty \<Rightarrow> (nat \<Rightarrow> nat) \<Rightarrow> (nat \<Rightarrow> BubbleColor)
     \<Rightarrow> GameState \<Rightarrow> GameState" where
  "skipTurn canvas difficulty now draw st =
     (let st1 = st\<lparr>showSkipConfirm := False, shotsTaken := shotsTaken st + 1\<rparr>;
          diffCfg = DIFFICULTY_SETTINGS difficulty;
          st2 = (case canvas of
                   Some width \<Rightarrow>
                     if jsRem (shotsTaken st1) (newRowFrequency diffCfg) = 0
                     then addNewRow width now draw st1 else st1
                 | None \<Rightarrow> st1)
      in st2\<lparr>captureRequest := True\<rparr>)"

section \<open>Grid occupancy\<close>

text \<open>No two active tokens of the grid share a cell.\<close>

definition cellOf :: "Bubble \<Rightarrow> int \<times> int" where
  "cellOf b = (row b, col b)"

definition occupancyOk :: "Bubble list \<Rightarrow> bool" where
  "occupancyOk bs = distinct (map cellOf (filter active bs))"

text \<open>
  A board on which the row growth has run \<open>n\<close> times (the \<open>k\<close>-th at clock value \<open>k\<close>,
  the colour drawn for column \<open>c\<close> being \<open>draw c\<close> each time), and the state of an empty
  board.
\<close>

fun rowGrowths :: "real \<Rightarrow> (nat \<Rightarrow> BubbleColor) \<Rightarrow> nat \<Rightarrow> GameState \<Rightarrow> GameState" where
  "rowGrowths width draw 0 st = st"
| "rowGrowths width draw (Suc n) st =
     addNewRow width (\<lambda>_. Suc n) draw (rowGrowths width draw n st)"

definition emptyBoard :: "Point \<Rightarrow> GameState" where
  "emptyBoard anchor =
     \<lparr>bubbles = [], score = 0, shotsTaken = 0, selectedColor = Red, availableColors = [],
      floatingScores = [], showSkipConfirm = False, captureRequest = False,
      isPinching = False, isFlying = False, flightStartTime = 0, ballPos = anchor,
      ballVel = (0, 0), anchorPos = anchor, aimTarget = None, activeShotTarget = None\<rparr>"

text \<open>
  The board after fourteen row growths from an empty board, the last column drawn blue and
  the others red, with blue selected as the colour of the next shot.
\<close>

definition fullBoard :: GameState where
  "fullBoard =
     (rowGrowths 1000 (\<lambda>c. if c = 11 then Blue else Red) 14 (emptyBoard (500, 700)))
       \<lparr>selectedColor := Blue, ballPos := (500, 556)\<rparr>"

section \<open>Strategic advisor\<close>

text \<open>
  A number as \<^verbatim>\<open>JSON.parse\<close> can yield it: a finite value, integral or not, or an
  infinity, for a literal beyond the range of a double; never \<^verbatim>\<open>NaN\<close>. Finite values
  are exact, as everywhere in this theory.
\<close>

datatype jsnumber = Finite real | PlusInfinity | MinusInfinity

text \<open>
  Values as \<^verbatim>\<open>JSON.parse\<close> yields them, with \<open>Undefined\<close> for an absent property.
  \<open>JNum\<close> holds the values whose \<^verbatim>\<open>typeof\<close> is \<^verbatim>\<open>'number'\<close>. An object is the
  list of its own properties, each name once.
\<close>

datatype jsval =
    Undefined
  | JNull
  | JBool bool
  | JNum jsnumber
  | JStr string
  | JArr "jsval list"
  | JObj "(string \<times> jsval) list"

fun truthy :: "jsval \<Rightarrow> bool" where
  "truthy Undefined = False"
| "truthy JNull = False"
| "truthy (JBool b) = b"
| "truthy (JNum n) = (n \<noteq> Finite 0)"
| "truthy (JStr s) = (s \<noteq> [])"
| "truthy (JArr vs) = True"
| "truthy (JObj kvs) = True"

text \<open>
  Reading a property: of \<^verbatim>\<open>null\<close> (or \<^verbatim>\<open>undefined\<close>) it throws a TypeError, here
  \<open>None\<close>; of an object it is the property's value; of any other value it is
  \<^verbatim>\<open>undefined\<close> for the names the service reads.
\<close>

fun getProp :: "jsval \<Rightarrow> string \<Rightarrow> jsval option" where
  "getProp Undefined k = None"
| "getProp JNull k = None"
| "getProp (JObj kvs) k = (case map_of kvs k of None \<Rightarrow> Some Undefined | Some v \<Rightarrow> Some v)"
| "getProp v k = Some Undefined"

text \<open>
  \<^verbatim>\<open>String.prototype.toLowerCase\<close> is the platform's and follows the Unicode case
  tables: the functions that call it take it as the parameter \<open>lower\<close>. On a string of
  ASCII characters it is \<open>asciiLowerCase\<close>, the value given to \<open>lower\<close> in the examples.
  The upper-casing below is applied to the colour of a candidate, an ASCII palette key.
\<close>

definition asciiLowerChar :: "char \<Rightarrow> char" where
  "asciiLowerChar ch =
     (case map_of (zip ''ABCDEFGHIJKLMNOPQRSTUVWXYZ'' ''abcdefghijklmnopqrstuvwxyz'') ch of
        Some l \<Rightarrow> l
      | None \<Rightarrow> ch)"

definition toUpperChar :: "char \<Rightarrow> char" where
  "toUpperChar ch =
     (case map_of (zip ''abcdefghijklmnopqrstuvwxyz'' ''ABCDEFGHIJKLMNOPQRSTUVWXYZ'') ch of
        Some u \<Rightarrow> u
      | None \<Rightarrow> ch)"

definition asciiLowerCase :: "string \<Rightarrow> string" where
  "asciiLowerCase s = map asciiLowerChar s"

definition toUpperCase :: "string \<Rightarrow> string" where
  "toUpperCase s = map toUpperChar s"

record TargetCandidate =
  tId :: string
  tColor :: string
  tSize :: int
  tRow :: int
  tCol :: int
  tPointsPerBubble :: int
  tDescription :: string

record StrategicHint =
  message :: jsval
  rationale :: jsval
  targetRow :: jsval
  targetCol :: jsval
  recommendedColor :: jsval
  suggestSkip :: jsval

text \<open>
  \<^verbatim>\<open>Array.prototype.sort\<close> with a comparator: a stable sort, ascending in the
  comparator. It is modelled as insertion from the right, which keeps equal elements in
  their order.
\<close>

fun insertSorted :: "('a \<Rightarrow> 'a \<Rightarrow> int) \<Rightarrow> 'a \<Rightarrow> 'a list \<Rightarrow> 'a list" where
  "insertSorted cmp v [] = [v]"
| "insertSorted cmp v (w # ws) =
     (if cmp v w \<le> 0 then v # w # ws else w # insertSorted cmp v ws)"

definition arraySort :: "('a \<Rightarrow> 'a \<Rightarrow> int) \<Rightarrow> 'a list \<Rightarrow> 'a list" where
  "arraySort cmp xs = foldr (insertSorted cmp) xs []"

definition compareTargets :: "TargetCandidate \<Rightarrow> TargetCandidate \<Rightarrow> int" where
  "compareTargets a b =
     (let scoreA = tSize a * tPointsPerBubble a;
          scoreB = tSize b * tPointsPerBubble b
      in if scoreB - scoreA \<noteq> 0 then scoreB - scoreA else tRow a - tRow b)"

definition getBestLocalTarget :: "string \<Rightarrow> TargetCandidate list \<Rightarrow> StrategicHint" where
  "getBestLocalTarget msg validTargets =
     (case arraySort compareTargets validTargets of
        best # _ \<Rightarrow>
          \<lparr>message = JStr (''Fallback: Select '' @ toUpperCase (tColor best) @ '' at Row ''
                            @ showInt (tRow best)),
           rationale =
             JStr ''Selected based on highest potential cluster score available locally.'',
           targetRow = JNum (Finite (real_of_int (tRow best))),
           targetCol = JNum (Finite (real_of_int (tCol best))),
           recommendedColor = JStr (tColor best),
           suggestSkip = Undefined\<rparr>
      | [] \<Rightarrow>
          \<lparr>message = JStr msg,
           rationale = JStr ''No valid clusters found to target.'',
           targetRow = Undefined, targetCol = Undefined, recommendedColor = Undefined,
           suggestSkip = Undefined\<rparr>)"

text \<open>
  What the request to the model service comes to: the call throws, or it returns a text
  that \<^verbatim>\<open>JSON.parse\<close> rejects, or one that it parses.
\<close>

datatype ServiceOutcome = RequestThrows | ResponseUnparsable | ResponseJson jsval

text \<open>
  The hint built from a parsed payload, inside the inner \<^verbatim>\<open>try\<close>: \<open>None\<close> when
  building it throws (a property read of \<^verbatim>\<open>null\<close>, or \<^verbatim>\<open>toLowerCase\<close> called on a
  colour that is neither absent nor a string).
\<close>

definition lowerCasedColor :: "(string \<Rightarrow> string) \<Rightarrow> jsval \<Rightarrow> jsval option" where
  "lowerCasedColor lower v =
     (case v of
        Undefined \<Rightarrow> Some Undefined
      | JNull \<Rightarrow> Some Undefined
      | JStr s \<Rightarrow> Some (JStr (lower s))
      | _ \<Rightarrow> None)"

definition hintOfJson :: "(string \<Rightarrow> string) \<Rightarrow> jsval \<Rightarrow> StrategicHint option" where
  "hintOfJson lower json =
     (case (getProp json ''message'', getProp json ''rationale'', getProp json ''targetRow'',
            getProp json ''targetCol'', getProp json ''recommendedColor'',
            getProp json ''suggestSkip'') of
        (Some m, Some r, Some tr, Some tc, Some rc, Some sk) \<Rightarrow>
          (case lowerCasedColor lower rc of
             None \<Rightarrow> None
           | Some lowered \<Rightarrow>
               Some \<lparr>message = (if truthy m then m else JStr ''Ready!''),
                     rationale = r, targetRow = tr, targetCol = tc,
                     recommendedColor = lowered, suggestSkip = sk\<rparr>)
      | _ \<Rightarrow> None)"

text \<open>
  \<^verbatim>\<open>getStrategicHint\<close>, its hint only (the debug record is left out). \<open>aiReady\<close> says
  whether the client was created, that is, whether an API key was configured.
\<close>

definition getStrategicHint ::
  "(string \<Rightarrow> string) \<Rightarrow> bool \<Rightarrow> TargetCandidate list \<Rightarrow> ServiceOutcome
     \<Rightarrow> StrategicHint" where
  "getStrategicHint lower aiReady validTargets outcome =
     (if \<not> aiReady then
        \<lparr>message = JStr ''API Key missing.'', rationale = Undefined, targetRow = Undefined,
         targetCol = Undefined, recommendedColor = Undefined, suggestSkip = Undefined\<rparr>
      else case outcome of
        RequestThrows \<Rightarrow> getBestLocalTarget ''Service unreachable'' validTargets
      | ResponseUnparsable \<Rightarrow> getBestLocalTarget ''Parse error'' validTargets
      | ResponseJson json \<Rightarrow>
          (case hintOfJson lower json of
             Some h \<Rightarrow> h
           | None \<Rightarrow> getBestLocalTarget ''Parse error'' validTargets))"

text \<open>
  \<^verbatim>\<open>getBubblePos\<close> as the advisory callback calls it, with the numbers of the payload:
  any finite value or an infinity. \<^verbatim>\<open>%\<close> on doubles truncates the quotient towards
  zero and is \<^verbatim>\<open>NaN\<close>, which differs from 0, for an infinite row; a product or sum with
  one infinite operand, the other finite and the factor positive, is that infinity. As
  everywhere, finite arithmetic is exact: neither rounding nor overflow is modelled. On a
  cell with integer indices the result is the pixel \<open>getBubblePos\<close> gives.
\<close>

definition jsRemReal :: "real \<Rightarrow> real \<Rightarrow> real" where
  "jsRemReal a b = a - b * of_int (if a / b < 0 then \<lceil>a / b\<rceil> else \<lfloor>a / b\<rfloor>)"

definition getBubblePosJs :: "jsnumber \<Rightarrow> jsnumber \<Rightarrow> real \<Rightarrow> jsnumber \<times> jsnumber" where
  "getBubblePosJs r c width =
     (let xOffset = (width - (real GRID_COLS * BUBBLE_RADIUS * 2)) / 2 + BUBBLE_RADIUS;
          isOdd = (case r of Finite v \<Rightarrow> jsRemReal v 2 \<noteq> 0 | _ \<Rightarrow> True);
          x = (case c of
                 Finite v \<Rightarrow>
                   Finite (xOffset + v * (BUBBLE_RADIUS * 2) + (if isOdd then BUBBLE_RADIUS else 0))
               | PlusInfinity \<Rightarrow> PlusInfinity
               | MinusInfinity \<Rightarrow> MinusInfinity);
          y = (case r of
                 Finite v \<Rightarrow> Finite (BUBBLE_RADIUS + v * ROW_HEIGHT)
               | PlusInfinity \<Rightarrow> PlusInfinity
               | MinusInfinity \<Rightarrow> MinusInfinity)
      in (x, y))"




section \<open>Named inputs and projections used in the statements\<close>

text \<open>The pixel of the cell a collision snaps to.\<close>

definition landingPixel :: "real \<Rightarrow> GameState \<Rightarrow> Point" where
  "landingPixel width st =
     (case nearestFreeCell width (bubbles st) (ballPos st) of
        (bestDist, bestRow, bestCol, bestX, bestY) \<Rightarrow> (bestX, bestY))"

text \<open>An active token placed at the pixel of its cell.\<close>

definition bubbleAt :: "real \<Rightarrow> string \<Rightarrow> int \<Rightarrow> int \<Rightarrow> BubbleColor \<Rightarrow> Bubble" where
  "bubbleAt width ident r c k =
     \<lparr>bubbleId = ident, row = r, col = c, posX = fst (getBubblePos r c width),
      posY = snd (getBubblePos r c width), color = k, active = True\<rparr>"

text \<open>
  A board with two separate red groups, of two and of four tokens, and a blue token: a red
  shot landing at the end of either group makes a group of three or of five.
\<close>

definition twoClusters :: "Bubble list" where
  "twoClusters =
     [bubbleAt 1000 ''0-0'' 0 0 Red, bubbleAt 1000 ''0-1'' 0 1 Red,
      bubbleAt 1000 ''2-5'' 2 5 Red, bubbleAt 1000 ''2-6'' 2 6 Red,
      bubbleAt 1000 ''2-7'' 2 7 Red, bubbleAt 1000 ''2-8'' 2 8 Red,
      bubbleAt 1000 ''1-9'' 1 9 Blue]"

text \<open>
  The outcomes on which \<^verbatim>\<open>getStrategicHint\<close> reaches one of its two \<^verbatim>\<open>catch\<close>
  blocks: the request throws, the text does not parse, or building the hint throws.
\<close>

definition raises :: "(string \<Rightarrow> string) \<Rightarrow> ServiceOutcome \<Rightarrow> bool" where
  "raises lower outcome =
     (case outcome of
        RequestThrows \<Rightarrow> True
      | ResponseUnparsable \<Rightarrow> True
      | ResponseJson json \<Rightarrow> hintOfJson lower json = None)"

text \<open>The two candidates of the fallback scenario: sizes 2 and 4, values 150 and 100.\<close>

definition scenarioTargets :: "TargetCandidate list" where
  "scenarioTargets =
     [\<lparr>tId = ''3-1'', tColor = ''blue'', tSize = 2, tRow = 3, tCol = 1,
       tPointsPerBubble = 150, tDescription = ''Left''\<rparr>,
      \<lparr>tId = ''5-7'', tColor = ''red'', tSize = 4, tRow = 5, tCol = 7,
       tPointsPerBubble = 100, tDescription = ''Right''\<rparr>]"


text \<open>The distance from the ball to the pixel of a cell.\<close>

definition cellDist :: "real \<Rightarrow> Point \<Rightarrow> int \<times> int \<Rightarrow> real" where
  "cellDist width ball cell = distance ball (getBubblePos (fst cell) (snd cell) width)"

text \<open>
  The group of a token: the tokens reached from it along edges between active neighbouring
  tokens of the grid that both have its colour.
\<close>

definition sameColorEdge :: "Bubble list \<Rightarrow> BubbleColor \<Rightarrow> (Bubble \<times> Bubble) set" where
  "sameColorEdge bs k =
     {(a, b). a \<in> set bs \<and> b \<in> set bs \<and> active a \<and> active b
              \<and> color a = k \<and> color b = k \<and> isNeighbor a b}"

definition region :: "Bubble list \<Rightarrow> Bubble \<Rightarrow> Bubble set" where
  "region bs start = {b. (start, b) \<in> (sameColorEdge bs (color start))\<^sup>*}"

text \<open>The invariant of the loop of \<^verbatim>\<open>checkMatches\<close>, used in the proofs.\<close>

definition fillInvariant ::
  "Bubble list \<Rightarrow> Bubble \<Rightarrow> Bubble list \<Rightarrow> string list \<Rightarrow> Bubble list \<Rightarrow> bool" where
  "fillInvariant bs start toCheck visited matches =
     (set toCheck \<subseteq> {b \<in> set bs. active b}
      \<and> set matches \<subseteq> region bs start
      \<and> (\<forall>t\<in>set toCheck. color t = color start \<longrightarrow> t \<in> region bs start)
      \<and> (\<forall>m\<in>set matches. \<forall>b\<in>set bs. active b \<and> isNeighbor m b \<longrightarrow>
            bubbleId b \<in> set visited \<or> b \<in> set toCheck)
      \<and> (\<forall>b\<in>set bs. active b \<and> color b = color start \<and> bubbleId b \<in> set visited \<longrightarrow>
            b \<in> set matches)
      \<and> (start \<in> set matches \<or> start \<in> set toCheck)
      \<and> (\<forall>i\<in>set visited. \<exists>b\<in>set bs. active b \<and> bubbleId b = i)
      \<and> bubbleId ` set matches \<subseteq> set visited
      \<and> distinct (map bubbleId matches))"

section \<open>State fields kept by the helpers\<close>

lemma bubbles_updateAvailableColors [simp]: "bubbles (updateAvailableColors st) = bubbles st"
  by (simp add: updateAvailableColors_def Let_def split: list.splits)

lemma shotsTaken_updateAvailableColors [simp]:
  "shotsTaken (updateAvailableColors st) = shotsTaken st"
  by (simp add: updateAvailableColors_def Let_def split: list.splits)

lemma isFlying_updateAvailableColors [simp]: "isFlying (updateAvailableColors st) = isFlying st"
  by (simp add: updateAvailableColors_def Let_def split: list.splits)

lemma score_updateAvailableColors [simp]: "score (updateAvailableColors st) = score st"
  by (simp add: updateAvailableColors_def Let_def split: list.splits)

lemma floatingScores_updateAvailableColors [simp]:
  "floatingScores (updateAvailableColors st) = floatingScores st"
  by (simp add: updateAvailableColors_def Let_def split: list.splits)

lemma bubbles_addNewRow:
  "bubbles (addNewRow width now draw st) =
     map (shiftDown width) (bubbles st) @ spawnRow width now draw"
  by (simp add: addNewRow_def)

lemma shotsTaken_addNewRow [simp]: "shotsTaken (addNewRow width now draw st) = shotsTaken st"
  by (simp add: addNewRow_def)

lemma isFlying_addNewRow [simp]: "isFlying (addNewRow width now draw st) = isFlying st"
  by (simp add: addNewRow_def)

lemma score_addNewRow [simp]: "score (addNewRow width now draw st) = score st"
  by (simp add: addNewRow_def)

lemma score_skipTurn: "score (skipTurn canvas difficulty nowf draw st) = score st"
  by (simp add: skipTurn_def Let_def split: option.splits)

lemma score_releaseShot:
  "score (releaseShot isLocked width perfNow difficulty nowf draw st) = score st"
  by (simp add: releaseShot_def Let_def)

lemma nearestFreeCell_cases:
  obtains bd br bc bx bY where
    "nearestFreeCell width bs ball = (bd, br, bc, bx, bY)"
  by (metis prod_cases5)

section \<open>Adjacency\<close>

lemma jsRem_two_odd: "(jsRem r 2 \<noteq> 0) = odd r"
  unfolding jsRem_def by presburger

text \<open>
  C6. The adjacency test is symmetric, \<open>isNeighbor a b = isNeighbor b a\<close>, and it is the
  offset-hex rule: rows more than one apart are never neighbours, in the same row the
  columns differ by exactly one, and in adjacent rows the admissible column offsets are
  \<open>{0, 1}\<close> seen from an odd row and \<open>{-1, 0}\<close> seen from an even row.
\<close>

theorem isNeighbor_symmetric:
  "isNeighbor a b = isNeighbor b a
   \<and> isNeighbor a b =
       (if \<bar>row b - row a\<bar> > 1 then False
        else if row b = row a then \<bar>col b - col a\<bar> = 1
        else if odd (row a) then col b - col a \<in> {0, 1}
        else col b - col a \<in> {- 1, 0})"
proof
  show "isNeighbor a b = isNeighbor b a"
    unfolding isNeighbor_def Let_def jsRem_two_odd by presburger
  show "isNeighbor a b =
       (if \<bar>row b - row a\<bar> > 1 then False
        else if row b = row a then \<bar>col b - col a\<bar> = 1
        else if odd (row a) then col b - col a \<in> {0, 1}
        else col b - col a \<in> {- 1, 0})"
    unfolding isNeighbor_def Let_def jsRem_two_odd by auto
qed

section \<open>Scoring\<close>

lemma accuracyBonus_ge_one: "1 \<le> accuracyBonus (accuracyCalculation t p)"
  by (simp add: accuracyCalculation_def accuracyOfDistance_def split: option.splits)

lemma pointsMultiplier_pos: "0 < pointsMultiplier (DIFFICULTY_SETTINGS d)"
  by (cases d) simp_all

lemma points_pos: "0 < points (COLOR_CONFIG c)"
  by (cases c) simp_all

lemma pointsGained_nonneg:
  assumes "0 \<le> b"
  shows "0 \<le> pointsGained n c d b"
proof -
  have "0 \<le> real n * real_of_int (points (COLOR_CONFIG c))
        * pointsMultiplier (DIFFICULTY_SETTINGS d) * (if n > 3 then 15 / 10 else 1) * b"
    using assms points_pos [of c] pointsMultiplier_pos [of d]
    by (intro mult_nonneg_nonneg) (auto simp: less_imp_le)
  then show ?thesis unfolding pointsGained_def by simp
qed

lemma score_checkMatches:
  "score (checkMatches start difficulty bonus st) =
     (if length (snd (floodFill (bubbles st) (color start) [start] [] [])) \<ge> 3
      then score st
         + pointsGained (length (snd (floodFill (bubbles st) (color start) [start] [] [])))
             (color start) difficulty bonus
      else score st)"
  by (simp add: checkMatches_def Let_def spawnFloatingScore_def)

lemma floatingScores_checkMatches:
  "\<exists>extra. floatingScores (checkMatches start difficulty bonus st) = floatingScores st @ extra
      \<and> list_all (\<lambda>fs. fsLabel fs = None) extra"
  by (simp add: checkMatches_def Let_def spawnFloatingScore_def)

lemma score_resolveCollision_mono:
  "score st \<le> score (resolveCollision width now difficulty st)"
proof -
  obtain bd br bc bx bY where
    nf: "nearestFreeCell width (bubbles st) (ballPos st) = (bd, br, bc, bx, bY)"
    by (rule nearestFreeCell_cases)
  have "0 \<le> pointsGained n c difficulty (accuracyBonus (accuracyCalculation t (bx, bY)))"
    for n c t
    using accuracyBonus_ge_one [of t "(bx, bY)"] by (intro pointsGained_nonneg) simp
  then show ?thesis
    by (simp add: resolveCollision_def Let_def nf score_checkMatches spawnFloatingScore_def
        split: option.splits)
qed

text \<open>
  C2. A triggered match of \<open>matchSize\<close> tokens adds exactly
  \<open>floor (matchSize * colorValue * multiplier * (1.5 if matchSize > 3 else 1) * bonus)\<close> to
  the score, and a smaller group leaves the score as it is; five red tokens at multiplier 1
  without bonus give 750 and three give 300; resolving a collision never lowers the score,
  and neither a skip nor a release changes it.
\<close>

theorem match_score:
  "score (checkMatches start difficulty bonus st) =
     (let matchSize = length (snd (floodFill (bubbles st) (color start) [start] [] []))
      in if matchSize \<ge> 3
         then score st + \<lfloor>real matchSize * real_of_int (points (COLOR_CONFIG (color start)))
                 * pointsMultiplier (DIFFICULTY_SETTINGS difficulty)
                 * (if matchSize > 3 then 15 / 10 else 1) * bonus\<rfloor>
         else score st)
   \<and> pointsGained 5 Red Medium 1 = 750
   \<and> pointsGained 3 Red Medium 1 = 300
   \<and> score st \<le> score (resolveCollision width now difficulty st)
   \<and> score (skipTurn canvas difficulty nowf draw st) = score st
   \<and> score (releaseShot isLocked width perfNow difficulty nowf draw st) = score st"
proof (intro conjI)
  show "score st \<le> score (resolveCollision width now difficulty st)"
    by (rule score_resolveCollision_mono)
qed (simp_all add: score_checkMatches Let_def pointsGained_def score_skipTurn score_releaseShot)

theorem match_score_witness:
  "score (checkMatches (bubbleAt 1000 ''2-9-77'' 2 9 Red) Medium 1
            ((emptyBoard (500, 600))
               \<lparr>bubbles := twoClusters @ [bubbleAt 1000 ''2-9-77'' 2 9 Red]\<rparr>)) = 750
   \<and> score (checkMatches (bubbleAt 1000 ''0-2-78'' 0 2 Red) Medium 1
            ((emptyBoard (500, 600))
               \<lparr>bubbles := twoClusters @ [bubbleAt 1000 ''0-2-78'' 0 2 Red]\<rparr>)) = 300"
  using match_score [of "bubbleAt 1000 ''2-9-77'' 2 9 Red" Medium 1
            "(emptyBoard (500, 600))
               \<lparr>bubbles := twoClusters @ [bubbleAt 1000 ''2-9-77'' 2 9 Red]\<rparr>"]
        match_score [of "bubbleAt 1000 ''0-2-78'' 0 2 Red" Medium 1
            "(emptyBoard (500, 600))
               \<lparr>bubbles := twoClusters @ [bubbleAt 1000 ''0-2-78'' 0 2 Red]\<rparr>"]
  by (simp add: twoClusters_def bubbleAt_def isNeighbor_def jsRem_def emptyBoard_def)

section \<open>Accuracy tiers\<close>

lemma floatingScores_resolveCollision_None:
  assumes "activeShotTarget st = None"
  shows "list_all (\<lambda>fs. fsLabel fs = None)
           (drop (length (floatingScores st))
              (floatingScores (resolveCollision width now difficulty st)))"
proof -
  obtain bd br bc bx bY where
    nf: "nearestFreeCell width (bubbles st) (ballPos st) = (bd, br, bc, bx, bY)"
    by (rule nearestFreeCell_cases)
  let ?newB = "\<lparr>bubbleId = showInt br @ ''-'' @ showInt bc @ ''-'' @ showNat now,
                  row = br, col = bc, posX = bx, posY = bY,
                  color = selectedColor st, active = True\<rparr>"
  let ?st3 = "st\<lparr>isFlying := False, bubbles := bubbles st @ [?newB]\<rparr>"
  from floatingScores_checkMatches [of ?newB difficulty 1 ?st3]
  obtain extra where
    e: "floatingScores (checkMatches ?newB difficulty 1 ?st3) = floatingScores ?st3 @ extra"
    and l: "list_all (\<lambda>fs. fsLabel fs = None) extra"
    by blast
  have "floatingScores (resolveCollision width now difficulty st) = floatingScores st @ extra"
    using e assms by (simp add: resolveCollision_def Let_def nf accuracyCalculation_def)
  with l show ?thesis by simp
qed

lemma floatingScores_resolveCollision_Some:
  assumes "activeShotTarget st = Some target"
  shows "fsLabel (floatingScores (resolveCollision width now difficulty st)
                    ! length (floatingScores st))
           = Some (accuracyLabel (accuracyOfDistance (distance (landingPixel width st) target)))"
proof -
  obtain bd br bc bx bY where
    nf: "nearestFreeCell width (bubbles st) (ballPos st) = (bd, br, bc, bx, bY)"
    by (rule nearestFreeCell_cases)
  let ?acc = "accuracyOfDistance (distance (bx, bY) target)"
  let ?newB = "\<lparr>bubbleId = showInt br @ ''-'' @ showInt bc @ ''-'' @ showNat now,
                  row = br, col = bc, posX = bx, posY = bY,
                  color = selectedColor st, active = True\<rparr>"
  let ?fs = "\<lparr>fsX = bx, fsY = bY - 40, fsValue = None, fsLife = 1,
              fsColor = accuracyColor ?acc, fsLabel = Some (accuracyLabel ?acc),
              fsIsSpecial = (1 < accuracyBonus ?acc)\<rparr>"
  let ?st3 = "st\<lparr>isFlying := False, floatingScores := floatingScores st @ [?fs],
                  bubbles := bubbles st @ [?newB]\<rparr>"
  from floatingScores_checkMatches [of ?newB difficulty "accuracyBonus ?acc" ?st3]
  obtain extra where
    e: "floatingScores (checkMatches ?newB difficulty (accuracyBonus ?acc) ?st3)
          = floatingScores ?st3 @ extra"
    by blast
  have "floatingScores (resolveCollision width now difficulty st)
          = floatingScores st @ [?fs] @ extra"
    using e assms
    by (simp add: resolveCollision_def Let_def nf accuracyCalculation_def
        spawnFloatingScore_def)
  then show ?thesis by (simp add: landingPixel_def nf nth_append)
qed

text \<open>
  C3. With a target stored at launch the bonus depends on the distance \<open>d\<close> from the
  landing pixel to the target only: 2 (critical) for \<open>d\<close> below one radius, 1.5 (great) from
  one radius to below 2.5 radii, 1 (off target) from there on, so a distance exactly at a
  threshold is in the farther tier and the bonus never grows with the distance; the label
  shown by the resolution is the tier's. Without a target the bonus is 1 and no label is
  shown.
\<close>

theorem accuracy_tiers:
  "accuracyCalculation None best =
     \<lparr>accuracyLabel = [], accuracyBonus = 1, accuracyColor = ''#ffffff''\<rparr>
   \<and> accuracyBonus (accuracyCalculation (Some target) best) =
       (if distance best target < 1 * BUBBLE_RADIUS then 2
        else if distance best target < 25 / 10 * BUBBLE_RADIUS then 15 / 10
        else 1)
   \<and> accuracyLabel (accuracyCalculation (Some target) best) =
       (if distance best target < 1 * BUBBLE_RADIUS then ''CRITICAL HIT!''
        else if distance best target < 25 / 10 * BUBBLE_RADIUS then ''GREAT AIM!''
        else ''OFF TARGET'')
   \<and> accuracyBonus (accuracyOfDistance (1 * BUBBLE_RADIUS)) = 15 / 10
   \<and> accuracyBonus (accuracyOfDistance (25 / 10 * BUBBLE_RADIUS)) = 1
   \<and> (d1 < d2 \<longrightarrow>
        accuracyBonus (accuracyOfDistance d2) \<le> accuracyBonus (accuracyOfDistance d1))
   \<and> (activeShotTarget st = Some target \<longrightarrow>
        fsLabel (floatingScores (resolveCollision width now difficulty st)
                   ! length (floatingScores st))
          = Some (accuracyLabel (accuracyOfDistance (distance (landingPixel width st) target))))
   \<and> (activeShotTarget st = None \<longrightarrow>
        list_all (\<lambda>fs. fsLabel fs = None)
          (drop (length (floatingScores st))
             (floatingScores (resolveCollision width now difficulty st))))"
proof (intro conjI impI)
  show "d1 < d2 \<Longrightarrow>
      accuracyBonus (accuracyOfDistance d2) \<le> accuracyBonus (accuracyOfDistance d1)"
    by (simp add: accuracyOfDistance_def BUBBLE_RADIUS_def)
qed (simp_all add: accuracyCalculation_def accuracyOfDistance_def BUBBLE_RADIUS_def
       floatingScores_resolveCollision_Some floatingScores_resolveCollision_None)

theorem accuracy_tiers_witness:
  "accuracyBonus (accuracyOfDistance 30) \<le> accuracyBonus (accuracyOfDistance 10)
   \<and> accuracyBonus (accuracyCalculation (Some (100, 100)) (100, 100)) = 2
   \<and> accuracyBonus (accuracyCalculation (Some (100, 100)) (100, 122)) = 15 / 10
   \<and> accuracyBonus (accuracyCalculation (Some (100, 100)) (100, 155)) = 1"
  using accuracy_tiers [of "(100, 100)" "(100, 100)" 10 30]
        accuracy_tiers [of "(100, 122)" "(100, 100)" 10 30]
        accuracy_tiers [of "(100, 155)" "(100, 100)" 10 30]
  by (simp add: distance_def BUBBLE_RADIUS_def)

section \<open>Skipping a turn\<close>



section \<open>Local fallback of the advisor\<close>

lemma compareTargets_le:
  "(compareTargets a b \<le> 0) =
     (tSize b * tPointsPerBubble b < tSize a * tPointsPerBubble a
      \<or> (tSize b * tPointsPerBubble b = tSize a * tPointsPerBubble a \<and> tRow a \<le> tRow b))"
  by (auto simp: compareTargets_def Let_def)

lemma arraySort_Cons: "arraySort cmp (x # xs) = insertSorted cmp x (arraySort cmp xs)"
  by (simp add: arraySort_def)

lemma arraySort_head:
  "xs \<noteq> [] \<Longrightarrow> \<exists>b rest. arraySort compareTargets xs = b # rest \<and> b \<in> set xs
      \<and> (\<forall>t\<in>set xs. compareTargets b t \<le> 0)"
proof (induction xs)
  case Nil
  then show ?case by simp
next
  case (Cons x xs)
  show ?case
  proof (cases "xs = []")
    case True
    then show ?thesis by (simp add: arraySort_def compareTargets_le)
  next
    case False
    with Cons.IH obtain b rest where
      s: "arraySort compareTargets xs = b # rest" and b: "b \<in> set xs"
      and m: "\<forall>t\<in>set xs. compareTargets b t \<le> 0"
      by blast
    show ?thesis
    proof (cases "compareTargets x b \<le> 0")
      case True
      have "\<forall>t\<in>set (x # xs). compareTargets x t \<le> 0"
      proof
        fix t assume "t \<in> set (x # xs)"
        then consider "t = x" | "t \<in> set xs" by auto
        then show "compareTargets x t \<le> 0"
        proof cases
          case 1
          then show ?thesis by (simp add: compareTargets_le)
        next
          case 2
          with m have "compareTargets b t \<le> 0" by blast
          with True show ?thesis unfolding compareTargets_le by linarith
        qed
      qed
      with True s show ?thesis by (simp add: arraySort_Cons)
    next
      case nle: False
      then have "compareTargets b x \<le> 0" unfolding compareTargets_le by linarith
      with m have "\<forall>t\<in>set (x # xs). compareTargets b t \<le> 0" by simp
      with nle s b show ?thesis by (simp add: arraySort_Cons)
    qed
  qed
qed

lemma getStrategicHint_raises:
  "raises lower outcome \<Longrightarrow>
     \<exists>msg. getStrategicHint lower True ts outcome = getBestLocalTarget msg ts"
  by (cases outcome) (auto simp: raises_def getStrategicHint_def)

lemma getBestLocalTarget_nonempty:
  assumes "ts \<noteq> []"
  shows "\<exists>best\<in>set ts.
           targetRow (getBestLocalTarget msg ts) = JNum (Finite (real_of_int (tRow best)))
         \<and> targetCol (getBestLocalTarget msg ts) = JNum (Finite (real_of_int (tCol best)))
         \<and> recommendedColor (getBestLocalTarget msg ts) = JStr (tColor best)
         \<and> (\<forall>t\<in>set ts. tSize t * tPointsPerBubble t \<le> tSize best * tPointsPerBubble best
               \<and> (tSize t * tPointsPerBubble t = tSize best * tPointsPerBubble best
                    \<longrightarrow> tRow best \<le> tRow t))"
proof -
  from arraySort_head [OF assms] obtain b rest where
    s: "arraySort compareTargets ts = b # rest" and b: "b \<in> set ts"
    and m: "\<forall>t\<in>set ts. compareTargets b t \<le> 0"
    by blast
  have "\<forall>t\<in>set ts. tSize t * tPointsPerBubble t \<le> tSize b * tPointsPerBubble b
               \<and> (tSize t * tPointsPerBubble t = tSize b * tPointsPerBubble b
                    \<longrightarrow> tRow b \<le> tRow t)"
    using m unfolding compareTargets_le by fastforce
  with s b show ?thesis by (auto simp: getBestLocalTarget_def)
qed

lemma getBestLocalTarget_empty:
  "getBestLocalTarget msg [] =
     \<lparr>message = JStr msg, rationale = JStr ''No valid clusters found to target.'',
      targetRow = Undefined, targetCol = Undefined, recommendedColor = Undefined,
      suggestSkip = Undefined\<rparr>"
  by (simp add: getBestLocalTarget_def arraySort_def)

text \<open>
  C7, as amended. Whenever \<^verbatim>\<open>getStrategicHint\<close> reaches a \<^verbatim>\<open>catch\<close> block (the request
  throws, the response text does not parse, or building the hint from the parsed payload
  throws) and the client exists, the hint is the local fallback: with candidates it aims at
  a candidate of maximal \<open>size * pointsPerBubble\<close> that has the smallest row among those,
  and names its row, column and colour; without candidates it carries no aim point. A
  payload that parses and yields a hint is not replaced by the fallback.
\<close>

theorem fallback_selection:
  "raises lower outcome \<longrightarrow>
     (validTargets \<noteq> [] \<longrightarrow>
        (\<exists>best\<in>set validTargets.
           targetRow (getStrategicHint lower True validTargets outcome)
             = JNum (Finite (real_of_int (tRow best)))
         \<and> targetCol (getStrategicHint lower True validTargets outcome)
             = JNum (Finite (real_of_int (tCol best)))
         \<and> recommendedColor (getStrategicHint lower True validTargets outcome)
             = JStr (tColor best)
         \<and> (\<forall>t\<in>set validTargets.
               tSize t * tPointsPerBubble t \<le> tSize best * tPointsPerBubble best
             \<and> (tSize t * tPointsPerBubble t = tSize best * tPointsPerBubble best
                  \<longrightarrow> tRow best \<le> tRow t))))
   \<and> (validTargets = [] \<longrightarrow>
         targetRow (getStrategicHint lower True validTargets outcome) = Undefined
       \<and> targetCol (getStrategicHint lower True validTargets outcome) = Undefined
       \<and> rationale (getStrategicHint lower True validTargets outcome)
            = JStr ''No valid clusters found to target.'')"
proof (intro impI conjI)
  assume r: "raises lower outcome" and ne: "validTargets \<noteq> []"
  from getStrategicHint_raises [OF r] obtain msg where
    "getStrategicHint lower True validTargets outcome = getBestLocalTarget msg validTargets"
    by blast
  with getBestLocalTarget_nonempty [OF ne, of msg]
  show "\<exists>best\<in>set validTargets.
           targetRow (getStrategicHint lower True validTargets outcome)
             = JNum (Finite (real_of_int (tRow best)))
         \<and> targetCol (getStrategicHint lower True validTargets outcome)
             = JNum (Finite (real_of_int (tCol best)))
         \<and> recommendedColor (getStrategicHint lower True validTargets outcome)
             = JStr (tColor best)
         \<and> (\<forall>t\<in>set validTargets.
               tSize t * tPointsPerBubble t \<le> tSize best * tPointsPerBubble best
             \<and> (tSize t * tPointsPerBubble t = tSize best * tPointsPerBubble best
                  \<longrightarrow> tRow best \<le> tRow t))"
    by simp
next
  assume r: "raises lower outcome" and e: "validTargets = []"
  from getStrategicHint_raises [OF r] obtain msg where
    "getStrategicHint lower True validTargets outcome = getBestLocalTarget msg validTargets"
    by blast
  with e have h: "getStrategicHint lower True [] outcome = getBestLocalTarget msg []"
    by simp
  show "targetRow (getStrategicHint lower True validTargets outcome) = Undefined"
    and "targetCol (getStrategicHint lower True validTargets outcome) = Undefined"
    and "rationale (getStrategicHint lower True validTargets outcome)
            = JStr ''No valid clusters found to target.''"
    by (simp_all add: e h getBestLocalTarget_empty)
qed

theorem fallback_selection_witness:
  "raises asciiLowerCase RequestThrows
   \<and> raises asciiLowerCase (ResponseJson JNull)
   \<and> getStrategicHint asciiLowerCase True scenarioTargets RequestThrows =
       \<lparr>message = JStr ''Fallback: Select RED at Row 5'',
        rationale =
          JStr ''Selected based on highest potential cluster score available locally.'',
        targetRow = JNum (Finite 5), targetCol = JNum (Finite 7),
        recommendedColor = JStr ''red'', suggestSkip = Undefined\<rparr>
   \<and> targetRow (getStrategicHint asciiLowerCase True [] (ResponseJson JNull)) = Undefined"
  using fallback_selection [of asciiLowerCase RequestThrows scenarioTargets]
        fallback_selection [of asciiLowerCase "ResponseJson JNull" "[]"]
  by (simp add: raises_def hintOfJson_def getStrategicHint_def getBestLocalTarget_def
      arraySort_def compareTargets_def scenarioTargets_def toUpperCase_def toUpperChar_def
      showInt_def showNat.simps)

theorem fallback_malformed_counterexample:
  "getStrategicHint asciiLowerCase True scenarioTargets (ResponseJson (JArr [])) =
     \<lparr>message = JStr ''Ready!'', rationale = Undefined, targetRow = Undefined,
      targetCol = Undefined, recommendedColor = Undefined, suggestSkip = Undefined\<rparr>
   \<and> getStrategicHint asciiLowerCase True scenarioTargets
         (ResponseJson (JObj [(''targetRow'', JStr ''top'')])) =
     \<lparr>message = JStr ''Ready!'', rationale = Undefined, targetRow = JStr ''top'',
      targetCol = Undefined, recommendedColor = Undefined, suggestSkip = Undefined\<rparr>
   \<and> targetRow (getBestLocalTarget ''Parse error'' scenarioTargets) = JNum (Finite 5)"
  by (simp add: getStrategicHint_def hintOfJson_def lowerCasedColor_def getBestLocalTarget_def
      arraySort_def compareTargets_def scenarioTargets_def)

section \<open>Effects of row growth\<close>

lemma length_spawnRow: "length (spawnRow width now draw) = 12"
  by (simp add: spawnRow_def Let_def jsRem_def GRID_COLS_def)

lemma spawnRow_row: "b \<in> set (spawnRow width now draw) \<Longrightarrow> row b = 0 \<and> active b"
  by (auto simp: spawnRow_def Let_def)

lemma addNewRow_frame:
  "addNewRow width now draw st =
     st\<lparr>bubbles := bubbles (addNewRow width now draw st),
        availableColors := availableColors (addNewRow width now draw st),
        selectedColor := selectedColor (addNewRow width now draw st)\<rparr>"
  by (simp add: addNewRow_def updateAvailableColors_def Let_def split: list.splits)

text \<open>
  C9, as amended. Row growth moves every token one row down, whatever its row, recomputes
  its pixel position and keeps its column, colour, identity and activity; it appends the
  twelve active tokens of the new row 0; and it changes nothing of the state but the grid,
  the available colours and the selected colour. No token is removed and no loss is
  signalled when a token passes the last row the snap-to-grid scan covers.
\<close>

theorem addNewRow_shifts:
  "bubbles (addNewRow width now draw st) =
     map (shiftDown width) (bubbles st) @ spawnRow width now draw
   \<and> length (bubbles (addNewRow width now draw st)) = length (bubbles st) + 12
   \<and> (\<forall>b\<in>set (bubbles st).
        row (shiftDown width b) = row b + 1
      \<and> (posX (shiftDown width b), posY (shiftDown width b))
          = getBubblePos (row b + 1) (col b) width
      \<and> col (shiftDown width b) = col b
      \<and> color (shiftDown width b) = color b
      \<and> bubbleId (shiftDown width b) = bubbleId b
      \<and> active (shiftDown width b) = active b)
   \<and> (\<forall>b\<in>set (spawnRow width now draw). row b = 0 \<and> active b)
   \<and> addNewRow width now draw st =
       st\<lparr>bubbles := bubbles (addNewRow width now draw st),
          availableColors := availableColors (addNewRow width now draw st),
          selectedColor := selectedColor (addNewRow width now draw st)\<rparr>"
proof (intro conjI ballI)
  show "addNewRow width now draw st =
       st\<lparr>bubbles := bubbles (addNewRow width now draw st),
          availableColors := availableColors (addNewRow width now draw st),
          selectedColor := selectedColor (addNewRow width now draw st)\<rparr>"
    by (rule addNewRow_frame)
qed (simp_all add: bubbles_addNewRow length_spawnRow shiftDown_def Let_def spawnRow_row)

theorem addNewRow_shifts_witness:
  "map row (bubbles (addNewRow 1000 (\<lambda>c. 7) (\<lambda>c. Red)
      ((emptyBoard (500, 600))\<lparr>bubbles := [bubbleAt 1000 ''2-3'' 2 3 Blue]\<rparr>)))
     = [3, 0, 0, 0, 0, 0, 0, 0, 0, 0, 0, 0, 0]"
  using addNewRow_shifts [of 1000 "\<lambda>c. 7" "\<lambda>c. Red"
      "(emptyBoard (500, 600))\<lparr>bubbles := [bubbleAt 1000 ''2-3'' 2 3 Blue]\<rparr>"]
  by (simp add: emptyBoard_def bubbleAt_def shiftDown_def spawnRow_def Let_def jsRem_def
      GRID_COLS_def upt_rec)

theorem addNewRow_overflow_counterexample:
  "row (bubbles (addNewRow 1000 (\<lambda>c. 7) (\<lambda>c. Red)
          ((emptyBoard (500, 600))\<lparr>bubbles := [bubbleAt 1000 ''13-0'' 13 0 Red]\<rparr>)) ! 0)
     = int GRID_ROWS
   \<and> active (bubbles (addNewRow 1000 (\<lambda>c. 7) (\<lambda>c. Red)
          ((emptyBoard (500, 600))\<lparr>bubbles := [bubbleAt 1000 ''13-0'' 13 0 Red]\<rparr>)) ! 0)
   \<and> (addNewRow 1000 (\<lambda>c. 7) (\<lambda>c. Red)
          ((emptyBoard (500, 600))\<lparr>bubbles := [bubbleAt 1000 ''13-0'' 13 0 Red]\<rparr>))
        \<lparr>bubbles := [], availableColors := []\<rparr>
      = emptyBoard (500, 600)"
  by (simp add: addNewRow_def updateAvailableColors_def insertionOrder_def emptyBoard_def
      bubbleAt_def shiftDown_def spawnRow_def Let_def jsRem_def GRID_COLS_def GRID_ROWS_def upt_rec)

section \<open>Applying the advisor's response\<close>



lemma getBubblePosJs_examples:
  "getBubblePosJs (Finite (5 / 2)) (Finite 1) 1000 = (Finite 324, Finite (22 + 5 / 2 * ROW_HEIGHT))
   \<and> getBubblePosJs (Finite 2) (Finite (1 / 2)) 1000 = (Finite 280, Finite (22 + 2 * ROW_HEIGHT))
   \<and> getBubblePosJs PlusInfinity (Finite 0) 1000 = (Finite 280, PlusInfinity)
   \<and> getBubblePosJs (Finite 0) MinusInfinity 1000 = (MinusInfinity, Finite 22)"
  by (simp add: getBubblePosJs_def jsRemReal_def Let_def GRID_COLS_def BUBBLE_RADIUS_def)










section \<open>Snap to grid\<close>

lemma scanCell_occupied: "occupied bs cell \<Longrightarrow> scanCell w bs p best cell = best"
  by (simp add: scanCell_def Let_def)

lemma scanCell_free:
  "\<not> occupied bs cell \<Longrightarrow>
     scanCell w bs p best cell =
       (if belowBest (cellDist w p cell) (fst best)
        then (Some (cellDist w p cell), fst cell, snd cell,
              fst (getBubblePos (fst cell) (snd cell) w), snd (getBubblePos (fst cell) (snd cell) w))
        else best)"
  by (simp add: scanCell_def Let_def cellDist_def)

lemma foldl_all_occupied:
  "\<forall>cell\<in>set cs. occupied bs cell \<Longrightarrow> foldl (scanCell w bs p) best cs = best"
  by (induction cs arbitrary: best) (simp_all add: scanCell_occupied)

lemma scan_first_nearest:
  assumes "\<exists>cell\<in>set cs. \<not> occupied bs cell"
  shows "\<exists>us cell vs. cs = us @ cell # vs \<and> \<not> occupied bs cell
      \<and> foldl (scanCell w bs p) (None, 0, 0, 0, 0) cs =
          (Some (cellDist w p cell), fst cell, snd cell,
           fst (getBubblePos (fst cell) (snd cell) w), snd (getBubblePos (fst cell) (snd cell) w))
      \<and> (\<forall>u\<in>set us. \<not> occupied bs u \<longrightarrow> cellDist w p cell < cellDist w p u)
      \<and> (\<forall>v\<in>set vs. \<not> occupied bs v \<longrightarrow> cellDist w p cell \<le> cellDist w p v)"
  using assms
proof (induction cs rule: rev_induct)
  case Nil
  then show ?case by simp
next
  case (snoc x xs)
  let ?res = "\<lambda>cell. (Some (cellDist w p cell), fst cell, snd cell,
           fst (getBubblePos (fst cell) (snd cell) w), snd (getBubblePos (fst cell) (snd cell) w))"
  show ?case
  proof (cases "\<exists>cell\<in>set xs. \<not> occupied bs cell")
    case False
    then have all: "\<forall>cell\<in>set xs. occupied bs cell" by blast
    with snoc.prems have xfree: "\<not> occupied bs x" by auto
    have "foldl (scanCell w bs p) (None, 0, 0, 0, 0) (xs @ [x]) = ?res x"
      using foldl_all_occupied [OF all] xfree by (simp add: scanCell_free belowBest_def)
    moreover have "\<forall>u\<in>set xs. \<not> occupied bs u \<longrightarrow> cellDist w p x < cellDist w p u"
      using all by blast
    ultimately show ?thesis
      using xfree by (intro exI [of _ xs] exI [of _ x] exI [of _ "[]"]) simp
  next
    case True
    from snoc.IH [OF True] obtain us cell vs where
      xs: "xs = us @ cell # vs" and free: "\<not> occupied bs cell"
      and res: "foldl (scanCell w bs p) (None, 0, 0, 0, 0) xs = ?res cell"
      and before: "\<forall>u\<in>set us. \<not> occupied bs u \<longrightarrow> cellDist w p cell < cellDist w p u"
      and after: "\<forall>v\<in>set vs. \<not> occupied bs v \<longrightarrow> cellDist w p cell \<le> cellDist w p v"
      by blast
    have step: "foldl (scanCell w bs p) (None, 0, 0, 0, 0) (xs @ [x])
        = scanCell w bs p (?res cell) x"
      by (simp add: res)
    show ?thesis
    proof (cases "\<not> occupied bs x \<and> cellDist w p x < cellDist w p cell")
      case True
      then have r: "foldl (scanCell w bs p) (None, 0, 0, 0, 0) (xs @ [x]) = ?res x"
        by (simp add: res scanCell_free belowBest_def)
      have "\<forall>u\<in>set xs. \<not> occupied bs u \<longrightarrow> cellDist w p x < cellDist w p u"
      proof (intro ballI impI)
        fix u assume "u \<in> set xs" and fu: "\<not> occupied bs u"
        then consider "u \<in> set us" | "u = cell" | "u \<in> set vs" using xs by auto
        then show "cellDist w p x < cellDist w p u"
        proof cases
          case 1 with before fu True show ?thesis by fastforce
        next
          case 2 with True show ?thesis by simp
        next
          case 3 with after fu True show ?thesis by fastforce
        qed
      qed
      with r True show ?thesis
        by (intro exI [of _ xs] exI [of _ x] exI [of _ "[]"]) simp
    next
      case False
      then have r: "foldl (scanCell w bs p) (None, 0, 0, 0, 0) (xs @ [x]) = ?res cell"
        by (cases "occupied bs x") (simp_all add: res scanCell_free scanCell_occupied belowBest_def)
      have "\<forall>v\<in>set (vs @ [x]). \<not> occupied bs v \<longrightarrow> cellDist w p cell \<le> cellDist w p v"
        using after False by auto
      with r free before xs show ?thesis
        by (intro exI [of _ us] exI [of _ cell] exI [of _ "vs @ [x]"]) simp
    qed
  qed
qed

lemma nearestFreeCell_full:
  "\<forall>cell\<in>set gridCells. occupied bs cell \<Longrightarrow> nearestFreeCell w bs p = (None, 0, 0, 0, 0)"
  unfolding nearestFreeCell_def by (rule foldl_all_occupied)

lemma nearestFreeCell_first_nearest:
  assumes "nearestFreeCell w bs p = (Some d, r, c, px, py)"
  shows "\<exists>us vs. gridCells = us @ (r, c) # vs \<and> \<not> occupied bs (r, c)
      \<and> d = cellDist w p (r, c) \<and> (px, py) = getBubblePos r c w
      \<and> (\<forall>u\<in>set us. \<not> occupied bs u \<longrightarrow> d < cellDist w p u)
      \<and> (\<forall>v\<in>set vs. \<not> occupied bs v \<longrightarrow> d \<le> cellDist w p v)"
proof -
  have "\<exists>cell\<in>set gridCells. \<not> occupied bs cell"
    using nearestFreeCell_full [of bs w p] assms by auto
  from scan_first_nearest [OF this, of w p] obtain us cell vs where
    g: "gridCells = us @ cell # vs" and free: "\<not> occupied bs cell"
    and res: "nearestFreeCell w bs p =
          (Some (cellDist w p cell), fst cell, snd cell,
           fst (getBubblePos (fst cell) (snd cell) w), snd (getBubblePos (fst cell) (snd cell) w))"
    and before: "\<forall>u\<in>set us. \<not> occupied bs u \<longrightarrow> cellDist w p cell < cellDist w p u"
    and after: "\<forall>v\<in>set vs. \<not> occupied bs v \<longrightarrow> cellDist w p cell \<le> cellDist w p v"
    unfolding nearestFreeCell_def by blast
  from res assms have "cell = (r, c)" and "d = cellDist w p cell"
    and "(px, py) = getBubblePos r c w"
    by (auto simp: prod_eq_iff)
  with g free before after show ?thesis by blast
qed

lemma ROW_HEIGHT_pos: "0 < ROW_HEIGHT"
  by (simp add: ROW_HEIGHT_def BUBBLE_RADIUS_def)

lemma getBubblePos_inj:
  assumes "getBubblePos r c w = getBubblePos r' c' w"
  shows "r = r' \<and> c = c'"
proof -
  from assms have y: "real_of_int r * ROW_HEIGHT = real_of_int r' * ROW_HEIGHT"
    by (simp add: getBubblePos_def Let_def)
  with ROW_HEIGHT_pos have r: "r = r'" by simp
  from assms r have "real_of_int c * (BUBBLE_RADIUS * 2) = real_of_int c' * (BUBBLE_RADIUS * 2)"
    by (simp add: getBubblePos_def Let_def)
  then have "c = c'" by (simp add: BUBBLE_RADIUS_def)
  with r show ?thesis by simp
qed

lemma distance_nonneg: "0 \<le> distance p q"
  by (simp add: distance_def)

lemma distance_zero_iff: "(distance p q = 0) = (p = q)"
  by (simp add: distance_def prod_eq_iff sum_power2_eq_zero_iff)

lemma occupied_Nil [simp]: "\<not> occupied [] cell"
  by (simp add: occupied_def)

lemma in_gridCells:
  "((r, c) \<in> set gridCells) =
     (0 \<le> r \<and> r < int GRID_ROWS \<and> 0 \<le> c
      \<and> c < (if odd r then int GRID_COLS - 1 else int GRID_COLS))"
proof
  assume "(r, c) \<in> set gridCells"
  then obtain rn cn where "rn < GRID_ROWS" "cn < (if rn mod 2 \<noteq> 0 then GRID_COLS - 1 else GRID_COLS)"
    "r = int rn" "c = int cn"
    by (auto simp: gridCells_def)
  then show "0 \<le> r \<and> r < int GRID_ROWS \<and> 0 \<le> c
      \<and> c < (if odd r then int GRID_COLS - 1 else int GRID_COLS)"
    by (auto simp: GRID_COLS_def odd_iff_mod_2_eq_one split: if_splits)
next
  assume a: "0 \<le> r \<and> r < int GRID_ROWS \<and> 0 \<le> c
      \<and> c < (if odd r then int GRID_COLS - 1 else int GRID_COLS)"
  then have "0 \<le> r" and "0 \<le> c" by simp_all
  then obtain rn cn where rn: "r = int rn" and cn: "c = int cn"
    using nonneg_int_cases by metis
  from a have "rn < GRID_ROWS" by (simp add: rn)
  moreover from a have "cn < (if rn mod 2 \<noteq> 0 then GRID_COLS - 1 else GRID_COLS)"
    by (auto simp: rn cn GRID_COLS_def odd_iff_mod_2_eq_one split: if_splits)
  ultimately have "(int rn, int cn) \<in> set gridCells"
    apply (simp add: gridCells_def)
    apply (rule bexI [of _ rn])
     apply (auto split: if_splits)
    done
  then show "(r, c) \<in> set gridCells" by (simp add: rn cn)
qed

lemma round_trip:
  assumes "(r, c) \<in> set gridCells"
  shows "nearestFreeCell w [] (getBubblePos r c w) =
           (Some 0, r, c, fst (getBubblePos r c w), snd (getBubblePos r c w))"
proof -
  let ?p = "getBubblePos r c w"
  have here: "cellDist w ?p (r, c) = 0"
    by (simp add: cellDist_def distance_zero_iff)
  obtain bd br bc bx bY where nf: "nearestFreeCell w [] ?p = (bd, br, bc, bx, bY)"
    by (metis prod_cases5)
  have "bd \<noteq> None"
  proof
    assume "bd = None"
    from scan_first_nearest [of gridCells "[]" w ?p] assms
    show False using nf \<open>bd = None\<close> unfolding nearestFreeCell_def by auto
  qed
  then obtain d where bd: "bd = Some d" by blast
  from nearestFreeCell_first_nearest [OF nf [unfolded bd]] obtain us vs where
    g: "gridCells = us @ (br, bc) # vs"
    and d: "d = cellDist w ?p (br, bc)" and pos: "(bx, bY) = getBubblePos br bc w"
    and before: "\<forall>u\<in>set us. \<not> occupied [] u \<longrightarrow> d < cellDist w ?p u"
    and after: "\<forall>v\<in>set vs. \<not> occupied [] v \<longrightarrow> d \<le> cellDist w ?p v"
    by blast
  have d0: "0 \<le> d" using d by (simp add: cellDist_def distance_nonneg)
  from assms have "(r, c) \<in> set (us @ (br, bc) # vs)" unfolding g .
  then consider "(r, c) \<in> set us" | "(r, c) = (br, bc)" | "(r, c) \<in> set vs" by auto
  then have "(br, bc) = (r, c)"
  proof cases
    case 1
    with before here d0 show ?thesis by fastforce
  next
    case 2 then show ?thesis by simp
  next
    case 3
    with after here have "d \<le> 0" by fastforce
    with d0 d have "cellDist w ?p (br, bc) = 0" by simp
    then have "getBubblePos r c w = getBubblePos br bc w"
      by (simp add: cellDist_def distance_zero_iff)
    then show ?thesis using getBubblePos_inj by blast
  qed
  with nf bd d here pos show ?thesis by (auto simp: prod_eq_iff)
qed


lemma row_cells_sorted:
  "sorted_wrt (\<lambda>a b. fst a < fst b \<or> (fst a = fst b \<and> snd a < snd b))
     (map (\<lambda>c. (int r, int c)) [0..<k])"
  by (simp add: sorted_wrt_map)

lemma rows_sorted:
  "sorted_wrt (<) rs \<Longrightarrow>
   sorted_wrt (\<lambda>a b. fst a < fst b \<or> (fst a = fst b \<and> snd a < snd b))
     (concat (map (\<lambda>r. map (\<lambda>c. (int r, int c)) [0..<k r]) rs))"
proof (induction rs)
  case Nil
  then show ?case by simp
next
  case (Cons r rs)
  then have "sorted_wrt (\<lambda>a b. fst a < fst b \<or> (fst a = fst b \<and> snd a < snd b))
     (concat (map (\<lambda>r. map (\<lambda>c. (int r, int c)) [0..<k r]) rs))"
    and later: "\<forall>r'\<in>set rs. r < r'"
    by simp_all
  with row_cells_sorted [of r "k r"] show ?case
    by (auto simp: sorted_wrt_append)
qed

lemma gridCells_row_major:
  "sorted_wrt (\<lambda>a b. fst a < fst b \<or> (fst a = fst b \<and> snd a < snd b)) gridCells"
  unfolding gridCells_def by (rule rows_sorted) simp

lemma sorted_wrt_split:
  "sorted_wrt P (us @ x # vs) \<Longrightarrow> v \<in> set vs \<Longrightarrow> P x v"
  by (simp add: sorted_wrt_append)

text \<open>
  C5. On an empty grid the nearest free cell of the pixel of a valid cell \<open>(r, c)\<close> (a row
  below \<^verbatim>\<open>GRID_ROWS\<close>, a column of that row) is \<open>(r, c)\<close> itself, at distance 0, for
  every viewport width. In general the cell found is a free cell of the enumeration at
  minimal distance among the free cells, and among the free cells at that distance it is
  the first in row-major order: a smaller row, or the same row and a smaller column.
\<close>

theorem nearest_free_cell_round_trip:
  "(0 \<le> r \<and> r < int GRID_ROWS \<and> 0 \<le> c
      \<and> c < (if odd r then int GRID_COLS - 1 else int GRID_COLS) \<longrightarrow>
      nearestFreeCell width [] (getBubblePos r c width) =
        (Some 0, r, c, fst (getBubblePos r c width), snd (getBubblePos r c width)))
   \<and> (nearestFreeCell width bs ball = (Some d, r', c', x', y') \<longrightarrow>
        (r', c') \<in> set gridCells \<and> \<not> occupied bs (r', c')
      \<and> (x', y') = getBubblePos r' c' width
      \<and> d = cellDist width ball (r', c')
      \<and> (\<forall>cell\<in>set gridCells. \<not> occupied bs cell \<longrightarrow>
            d \<le> cellDist width ball cell
          \<and> (cellDist width ball cell = d \<longrightarrow>
                r' < fst cell \<or> (r' = fst cell \<and> c' \<le> snd cell))))"
proof (intro conjI impI)
  assume "0 \<le> r \<and> r < int GRID_ROWS \<and> 0 \<le> c
      \<and> c < (if odd r then int GRID_COLS - 1 else int GRID_COLS)"
  then have "(r, c) \<in> set gridCells" by (simp only: in_gridCells)
  then show "nearestFreeCell width [] (getBubblePos r c width) =
        (Some 0, r, c, fst (getBubblePos r c width), snd (getBubblePos r c width))"
    by (rule round_trip)
next
  assume nf: "nearestFreeCell width bs ball = (Some d, r', c', x', y')"
  from nearestFreeCell_first_nearest [OF nf] obtain us vs where
    g: "gridCells = us @ (r', c') # vs" and free: "\<not> occupied bs (r', c')"
    and d: "d = cellDist width ball (r', c')" and pos: "(x', y') = getBubblePos r' c' width"
    and before: "\<forall>u\<in>set us. \<not> occupied bs u \<longrightarrow> d < cellDist width ball u"
    and after: "\<forall>v\<in>set vs. \<not> occupied bs v \<longrightarrow> d \<le> cellDist width ball v"
    by blast
  show "(r', c') \<in> set gridCells" by (simp add: g)
  show "\<not> occupied bs (r', c')" by (rule free)
  show "(x', y') = getBubblePos r' c' width" by (rule pos)
  show "d = cellDist width ball (r', c')" by (rule d)
  show "\<forall>cell\<in>set gridCells. \<not> occupied bs cell \<longrightarrow>
            d \<le> cellDist width ball cell
          \<and> (cellDist width ball cell = d \<longrightarrow>
                r' < fst cell \<or> (r' = fst cell \<and> c' \<le> snd cell))"
  proof (intro ballI impI)
    fix cell assume "cell \<in> set gridCells" and fc: "\<not> occupied bs cell"
    then have "cell \<in> set (us @ (r', c') # vs)" by (simp only: g)
    then consider "cell \<in> set us" | "cell = (r', c')" | "cell \<in> set vs" by auto
    then show "d \<le> cellDist width ball cell
          \<and> (cellDist width ball cell = d \<longrightarrow>
                r' < fst cell \<or> (r' = fst cell \<and> c' \<le> snd cell))"
    proof cases
      case 1
      with before fc show ?thesis by fastforce
    next
      case 2
      with d show ?thesis by simp
    next
      case 3
      have "sorted_wrt (\<lambda>a b. fst a < fst b \<or> (fst a = fst b \<and> snd a < snd b))
              (us @ (r', c') # vs)"
        using gridCells_row_major by (simp only: g)
      from sorted_wrt_split [OF this 3] after 3 fc show ?thesis by fastforce
    qed
  qed
qed

theorem nearest_free_cell_round_trip_witness:
  "nearestFreeCell 1000 [] (getBubblePos 3 10 1000) =
     (Some 0, 3, 10, fst (getBubblePos 3 10 1000), snd (getBubblePos 3 10 1000))
   \<and> nearestFreeCell 1280 [] (getBubblePos 0 0 1280) =
     (Some 0, 0, 0, fst (getBubblePos 0 0 1280), snd (getBubblePos 0 0 1280))"
  using nearest_free_cell_round_trip [of 3 10 1000]
        nearest_free_cell_round_trip [of 0 0 1280]
  by (simp add: GRID_ROWS_def GRID_COLS_def)

section \<open>Match detection is a flood fill of the colour group\<close>

lemma fillInvariantD:
  assumes "fillInvariant bs start toCheck visited matches"
  shows "set toCheck \<subseteq> {b \<in> set bs. active b}"
    and "set matches \<subseteq> region bs start"
    and "\<forall>t\<in>set toCheck. color t = color start \<longrightarrow> t \<in> region bs start"
    and "\<forall>m\<in>set matches. \<forall>b\<in>set bs. active b \<and> isNeighbor m b \<longrightarrow>
            bubbleId b \<in> set visited \<or> b \<in> set toCheck"
    and "\<forall>b\<in>set bs. active b \<and> color b = color start \<and> bubbleId b \<in> set visited \<longrightarrow>
            b \<in> set matches"
    and "start \<in> set matches \<or> start \<in> set toCheck"
    and "\<forall>i\<in>set visited. \<exists>b\<in>set bs. active b \<and> bubbleId b = i"
    and "bubbleId ` set matches \<subseteq> set visited"
    and "distinct (map bubbleId matches)"
proof -
  note d = assms [unfolded fillInvariant_def]
  show "set toCheck \<subseteq> {b \<in> set bs. active b}"
    by (rule d [THEN conjunct1])
  show "set matches \<subseteq> region bs start"
    by (rule d [THEN conjunct2, THEN conjunct1])
  show "\<forall>t\<in>set toCheck. color t = color start \<longrightarrow> t \<in> region bs start"
    by (rule d [THEN conjunct2, THEN conjunct2, THEN conjunct1])
  show "\<forall>m\<in>set matches. \<forall>b\<in>set bs. active b \<and> isNeighbor m b \<longrightarrow>
            bubbleId b \<in> set visited \<or> b \<in> set toCheck"
    by (rule d [THEN conjunct2, THEN conjunct2, THEN conjunct2, THEN conjunct1])
  show "\<forall>b\<in>set bs. active b \<and> color b = color start \<and> bubbleId b \<in> set visited \<longrightarrow>
            b \<in> set matches"
    by (rule d [THEN conjunct2, THEN conjunct2, THEN conjunct2, THEN conjunct2, THEN conjunct1])
  show "start \<in> set matches \<or> start \<in> set toCheck"
    by (rule d [THEN conjunct2, THEN conjunct2, THEN conjunct2, THEN conjunct2, THEN conjunct2, THEN conjunct1])
  show "\<forall>i\<in>set visited. \<exists>b\<in>set bs. active b \<and> bubbleId b = i"
    by (rule d [THEN conjunct2, THEN conjunct2, THEN conjunct2, THEN conjunct2, THEN conjunct2, THEN conjunct2, THEN conjunct1])
  show "bubbleId ` set matches \<subseteq> set visited"
    by (rule d [THEN conjunct2, THEN conjunct2, THEN conjunct2, THEN conjunct2, THEN conjunct2, THEN conjunct2, THEN conjunct2, THEN conjunct1])
  show "distinct (map bubbleId matches)"
    by (rule d [THEN conjunct2, THEN conjunct2, THEN conjunct2, THEN conjunct2, THEN conjunct2, THEN conjunct2, THEN conjunct2, THEN conjunct2])
qed

lemma same_id_same_bubble:
  "distinct (map bubbleId bs) \<Longrightarrow> a \<in> set bs \<Longrightarrow> b \<in> set bs \<Longrightarrow> bubbleId a = bubbleId b
     \<Longrightarrow> a = b"
  by (simp add: distinct_map inj_on_def)

lemma region_step:
  "a \<in> region bs start \<Longrightarrow> (a, b) \<in> sameColorEdge bs (color start) \<Longrightarrow> b \<in> region bs start"
  unfolding region_def by (auto intro: rtrancl_into_rtrancl)

lemma region_start: "start \<in> region bs start"
  by (simp add: region_def)

lemma region_members:
  assumes "start \<in> set bs" and "active start" and "b \<in> region bs start"
  shows "b \<in> set bs \<and> active b \<and> color b = color start"
proof -
  from assms(3) have "(start, b) \<in> (sameColorEdge bs (color start))\<^sup>*"
    by (simp add: region_def)
  then show ?thesis
    using assms(1,2) by (cases rule: rtranclE) (auto simp: sameColorEdge_def)
qed

lemma invariant_visited:
  assumes inv: "fillInvariant bs start (cur # stack) visited matches"
    and seen: "bubbleId cur \<in> set visited"
  shows "fillInvariant bs start stack visited matches"
proof -
  note i1 = fillInvariantD(1) [OF inv]
    and i2 = fillInvariantD(2) [OF inv]
    and i3 = fillInvariantD(3) [OF inv]
    and i4 = fillInvariantD(4) [OF inv]
    and i5 = fillInvariantD(5) [OF inv]
    and i6 = fillInvariantD(6) [OF inv]
    and i7 = fillInvariantD(7) [OF inv]
    and i8 = fillInvariantD(8) [OF inv]
    and i9 = fillInvariantD(9) [OF inv]
  have n1: "set stack \<subseteq> {b \<in> set bs. active b}" using i1 by auto
  have n3: "\<forall>t\<in>set stack. color t = color start \<longrightarrow> t \<in> region bs start" using i3 by auto
  have n4: "\<forall>m\<in>set matches. \<forall>b\<in>set bs. active b \<and> isNeighbor m b \<longrightarrow>
            bubbleId b \<in> set visited \<or> b \<in> set stack"
    using i4 seen by auto
  have n6: "start \<in> set matches \<or> start \<in> set stack"
  proof (cases "start = cur")
    case True
    with i1 seen i5 have "start \<in> set matches" by auto
    then show ?thesis ..
  next
    case False
    with i6 show ?thesis by auto
  qed
  from n1 i2 n3 n4 i5 n6 i7 i8 i9 show ?thesis
    unfolding fillInvariant_def by (intro conjI)
qed

lemma invariant_expand:
  assumes ids: "distinct (map bubbleId bs)"
    and inv: "fillInvariant bs start (cur # stack) visited matches"
    and fresh: "bubbleId cur \<notin> set visited"
    and same: "color cur = color start"
  shows "fillInvariant bs start
           (rev (filter (\<lambda>b. active b \<and> bubbleId b \<notin> set (bubbleId cur # visited)
                              \<and> isNeighbor cur b) bs) @ stack)
           (bubbleId cur # visited) (matches @ [cur])"
proof -
  let ?push = "filter (\<lambda>b. active b \<and> bubbleId b \<notin> set (bubbleId cur # visited)
                              \<and> isNeighbor cur b) bs"
  note i1 = fillInvariantD(1) [OF inv]
    and i2 = fillInvariantD(2) [OF inv]
    and i3 = fillInvariantD(3) [OF inv]
    and i4 = fillInvariantD(4) [OF inv]
    and i5 = fillInvariantD(5) [OF inv]
    and i6 = fillInvariantD(6) [OF inv]
    and i7 = fillInvariantD(7) [OF inv]
    and i8 = fillInvariantD(8) [OF inv]
    and i9 = fillInvariantD(9) [OF inv]
  have cur: "cur \<in> set bs" "active cur" using i1 by auto
  have curR: "cur \<in> region bs start" using i3 same by auto
  have n1: "set (rev ?push @ stack) \<subseteq> {b \<in> set bs. active b}" using i1 by auto
  have n2: "set (matches @ [cur]) \<subseteq> region bs start" using i2 curR by auto
  have n3: "\<forall>t\<in>set (rev ?push @ stack). color t = color start \<longrightarrow> t \<in> region bs start"
  proof (intro ballI impI)
    fix t assume t: "t \<in> set (rev ?push @ stack)" and ct: "color t = color start"
    then consider "t \<in> set ?push" | "t \<in> set stack" by auto
    then show "t \<in> region bs start"
    proof cases
      case 1
      then have "(cur, t) \<in> sameColorEdge bs (color start)"
        using cur same ct by (simp add: sameColorEdge_def)
      with curR show ?thesis by (rule region_step)
    next
      case 2
      with i3 ct show ?thesis by auto
    qed
  qed
  have n4: "\<forall>m\<in>set (matches @ [cur]). \<forall>b\<in>set bs. active b \<and> isNeighbor m b \<longrightarrow>
            bubbleId b \<in> set (bubbleId cur # visited) \<or> b \<in> set (rev ?push @ stack)"
  proof (intro ballI impI)
    fix m b assume m: "m \<in> set (matches @ [cur])" and b: "b \<in> set bs"
      and nb: "active b \<and> isNeighbor m b"
    from m consider "m = cur" | "m \<in> set matches" by auto
    then show "bubbleId b \<in> set (bubbleId cur # visited) \<or> b \<in> set (rev ?push @ stack)"
    proof cases
      case 1
      with b nb show ?thesis by auto
    next
      case 2
      with i4 b nb have "bubbleId b \<in> set visited \<or> b \<in> set (cur # stack)" by blast
      then show ?thesis by auto
    qed
  qed
  have n5: "\<forall>b\<in>set bs. active b \<and> color b = color start
              \<and> bubbleId b \<in> set (bubbleId cur # visited) \<longrightarrow> b \<in> set (matches @ [cur])"
  proof (intro ballI impI)
    fix b assume b: "b \<in> set bs"
      and h: "active b \<and> color b = color start \<and> bubbleId b \<in> set (bubbleId cur # visited)"
    show "b \<in> set (matches @ [cur])"
    proof (cases "bubbleId b = bubbleId cur")
      case True
      with same_id_same_bubble [OF ids b cur(1)] show ?thesis by simp
    next
      case False
      with h i5 b show ?thesis by auto
    qed
  qed
  have n6: "start \<in> set (matches @ [cur]) \<or> start \<in> set (rev ?push @ stack)"
    using i6 by auto
  have n7: "\<forall>i\<in>set (bubbleId cur # visited). \<exists>b\<in>set bs. active b \<and> bubbleId b = i"
    using i7 cur by auto
  have n8: "bubbleId ` set (matches @ [cur]) \<subseteq> set (bubbleId cur # visited)"
    using i8 by auto
  have n9: "distinct (map bubbleId (matches @ [cur]))"
    using i9 i8 fresh by auto
  from n1 n2 n3 n4 n5 n6 n7 n8 n9 show ?thesis
    unfolding fillInvariant_def by (intro conjI)
qed

lemma invariant_skip:
  assumes ids: "distinct (map bubbleId bs)"
    and inv: "fillInvariant bs start (cur # stack) visited matches"
    and fresh: "bubbleId cur \<notin> set visited"
    and other: "color cur \<noteq> color start"
  shows "fillInvariant bs start stack (bubbleId cur # visited) matches"
proof -
  note i1 = fillInvariantD(1) [OF inv]
    and i2 = fillInvariantD(2) [OF inv]
    and i3 = fillInvariantD(3) [OF inv]
    and i4 = fillInvariantD(4) [OF inv]
    and i5 = fillInvariantD(5) [OF inv]
    and i6 = fillInvariantD(6) [OF inv]
    and i7 = fillInvariantD(7) [OF inv]
    and i8 = fillInvariantD(8) [OF inv]
    and i9 = fillInvariantD(9) [OF inv]
  have cur: "cur \<in> set bs" "active cur" using i1 by auto
  have n1: "set stack \<subseteq> {b \<in> set bs. active b}" using i1 by auto
  have n3: "\<forall>t\<in>set stack. color t = color start \<longrightarrow> t \<in> region bs start" using i3 by auto
  have n4: "\<forall>m\<in>set matches. \<forall>b\<in>set bs. active b \<and> isNeighbor m b \<longrightarrow>
            bubbleId b \<in> set (bubbleId cur # visited) \<or> b \<in> set stack"
  proof (intro ballI impI)
    fix m b assume "m \<in> set matches" and "b \<in> set bs" and "active b \<and> isNeighbor m b"
    with i4 have "bubbleId b \<in> set visited \<or> b \<in> set (cur # stack)" by blast
    then show "bubbleId b \<in> set (bubbleId cur # visited) \<or> b \<in> set stack" by auto
  qed
  have n5: "\<forall>b\<in>set bs. active b \<and> color b = color start
              \<and> bubbleId b \<in> set (bubbleId cur # visited) \<longrightarrow> b \<in> set matches"
  proof (intro ballI impI)
    fix b assume b: "b \<in> set bs"
      and h: "active b \<and> color b = color start \<and> bubbleId b \<in> set (bubbleId cur # visited)"
    show "b \<in> set matches"
    proof (cases "bubbleId b = bubbleId cur")
      case True
      with same_id_same_bubble [OF ids b cur(1)] have "b = cur" by simp
      with h other show ?thesis by simp
    next
      case False
      with h i5 b show ?thesis by auto
    qed
  qed
  have n6: "start \<in> set matches \<or> start \<in> set stack"
    using i6 other by auto
  have n7: "\<forall>i\<in>set (bubbleId cur # visited). \<exists>b\<in>set bs. active b \<and> bubbleId b = i"
    using i7 cur by auto
  have n8: "bubbleId ` set matches \<subseteq> set (bubbleId cur # visited)"
    using i8 by auto
  from n1 i2 n3 n4 n5 n6 n7 n8 i9 show ?thesis
    unfolding fillInvariant_def by (intro conjI)
qed

lemma floodFill_invariant:
  assumes "distinct (map bubbleId bs)"
    and "fillInvariant bs start toCheck visited matches"
    and "k = color start"
  shows "fillInvariant bs start []
           (fst (floodFill bs k toCheck visited matches))
           (snd (floodFill bs k toCheck visited matches))"
  using assms
proof (induction bs k toCheck visited matches rule: floodFill.induct)
  case (1 bs startColor visited matches)
  then show ?case by simp
next
  case (2 bs startColor cur stack visited matches)
  show ?case
  proof (cases "bubbleId cur \<in> set visited")
    case True
    with 2 invariant_visited [of bs start cur stack visited matches] show ?thesis by simp
  next
    case fresh: False
    show ?thesis
    proof (cases "color cur = startColor")
      case True
      with fresh 2 invariant_expand [of bs start cur stack visited matches]
      show ?thesis by simp
    next
      case False
      with fresh 2 invariant_skip [of bs start cur stack visited matches]
      show ?thesis by simp
    qed
  qed
qed

lemma initial_invariant:
  assumes "start \<in> set bs" and "active start"
  shows "fillInvariant bs start [start] [] []"
  using assms unfolding fillInvariant_def by (simp add: region_start)

lemma final_invariant_region:
  assumes inv: "fillInvariant bs start [] visited matches"
    and start: "start \<in> set bs" "active start"
  shows "set matches = region bs start"
proof
  from inv show "set matches \<subseteq> region bs start"
    by (rule fillInvariantD)
next
  note i4 = fillInvariantD(4) [OF inv]
    and i5 = fillInvariantD(5) [OF inv]
    and i6 = fillInvariantD(6) [OF inv]
  show "region bs start \<subseteq> set matches"
  proof
    fix b assume "b \<in> region bs start"
    then have "(start, b) \<in> (sameColorEdge bs (color start))\<^sup>*" by (simp add: region_def)
    then show "b \<in> set matches"
    proof (induction rule: rtrancl_induct)
      case base
      with i6 show ?case by simp
    next
      case (step a b)
      then have e: "b \<in> set bs" "active b" "color b = color start" "isNeighbor a b"
        by (auto simp: sameColorEdge_def)
      with step.IH i4 have "bubbleId b \<in> set visited" by auto
      with e i5 show ?case by auto
    qed
  qed
qed

lemma floodFill_start:
  assumes ids: "distinct (map bubbleId bs)" and s: "start \<in> set bs" and a: "active start"
  shows "fillInvariant bs start []
           (fst (floodFill bs (color start) [start] [] []))
           (snd (floodFill bs (color start) [start] [] []))"
  by (rule floodFill_invariant [OF ids initial_invariant [OF s a] refl])

lemma deactivate_unchanged_length [simp]: "length (deactivate ms bs) = length bs"
  by (simp add: deactivate_def)

text \<open>
  C1. On a grid whose tokens have pairwise different ids, for an active origin token of the
  grid: the tokens collected by the match detection are exactly the origin's group, the
  active tokens connected to it through neighbour edges between tokens of its colour. A
  group of at least three is deactivated as a whole and no other token changes; a smaller
  group leaves the whole state unchanged. Only ids of active tokens are ever visited, and
  every member of the group has the origin's colour.
\<close>

theorem checkMatches_removes_region:
  assumes "distinct (map bubbleId (bubbles st))"
    and "start \<in> set (bubbles st)"
    and "active start"
  shows "set (snd (floodFill (bubbles st) (color start) [start] [] []))
           = region (bubbles st) start
   \<and> length (snd (floodFill (bubbles st) (color start) [start] [] []))
           = card (region (bubbles st) start)
   \<and> (3 \<le> card (region (bubbles st) start) \<longrightarrow>
         bubbles (checkMatches start difficulty bonus st) =
           map (\<lambda>b. if b \<in> region (bubbles st) start then b\<lparr>active := False\<rparr> else b)
             (bubbles st))
   \<and> (card (region (bubbles st) start) < 3 \<longrightarrow>
         checkMatches start difficulty bonus st = st)
   \<and> (\<forall>i\<in>set (fst (floodFill (bubbles st) (color start) [start] [] [])).
         \<exists>b\<in>set (bubbles st). active b \<and> bubbleId b = i)
   \<and> (\<forall>b\<in>region (bubbles st) start.
         b \<in> set (bubbles st) \<and> active b \<and> color b = color start)"
proof -
  let ?bs = "bubbles st"
  let ?v = "fst (floodFill ?bs (color start) [start] [] [])"
  let ?m = "snd (floodFill ?bs (color start) [start] [] [])"
  have inv: "fillInvariant ?bs start [] ?v ?m"
    using assms by (rule floodFill_start)
  have reg: "set ?m = region ?bs start"
    using inv assms(2,3) by (rule final_invariant_region)
  have "distinct (map bubbleId ?m)" using inv by (rule fillInvariantD)
  then have "distinct ?m" by (simp add: distinct_map)
  then have len: "length ?m = card (region ?bs start)"
    using reg distinct_card by fastforce
  have big: "3 \<le> card (region ?bs start) \<longrightarrow>
         bubbles (checkMatches start difficulty bonus st) =
           map (\<lambda>b. if b \<in> region ?bs start then b\<lparr>active := False\<rparr> else b) ?bs"
    using len reg by (simp add: checkMatches_def Let_def spawnFloatingScore_def deactivate_def)
  have small: "card (region ?bs start) < 3 \<longrightarrow> checkMatches start difficulty bonus st = st"
    using len by (simp add: checkMatches_def Let_def)
  have vis: "\<forall>i\<in>set ?v. \<exists>b\<in>set ?bs. active b \<and> bubbleId b = i"
    using inv by (rule fillInvariantD)
  have mem: "\<forall>b\<in>region ?bs start. b \<in> set ?bs \<and> active b \<and> color b = color start"
    using region_members [OF assms(2,3)] by blast
  from reg len big small vis mem show ?thesis by blast
qed

lemma ff5w:
  "snd (floodFill (twoClusters @ [bubbleAt 1000 ''2-9-77'' 2 9 Red]) Red
      [bubbleAt 1000 ''2-9-77'' 2 9 Red] [] [])
   = [bubbleAt 1000 ''2-9-77'' 2 9 Red, bubbleAt 1000 ''2-8'' 2 8 Red,
      bubbleAt 1000 ''2-7'' 2 7 Red, bubbleAt 1000 ''2-6'' 2 6 Red,
      bubbleAt 1000 ''2-5'' 2 5 Red]"
  by (simp add: twoClusters_def bubbleAt_def isNeighbor_def jsRem_def)

theorem checkMatches_removes_region_witness:
  "card (region (twoClusters @ [bubbleAt 1000 ''2-9-77'' 2 9 Red])
           (bubbleAt 1000 ''2-9-77'' 2 9 Red)) = 5
   \<and> map active (bubbles (checkMatches (bubbleAt 1000 ''2-9-77'' 2 9 Red) Medium 1
        ((emptyBoard (500, 600))
           \<lparr>bubbles := twoClusters @ [bubbleAt 1000 ''2-9-77'' 2 9 Red]\<rparr>)))
       = [True, True, False, False, False, False, True, False]
   \<and> card (region (twoClusters @ [bubbleAt 1000 ''1-8-78'' 1 8 Blue])
           (bubbleAt 1000 ''1-8-78'' 1 8 Blue)) = 2
   \<and> checkMatches (bubbleAt 1000 ''1-8-78'' 1 8 Blue) Medium 1
        ((emptyBoard (500, 600))
           \<lparr>bubbles := twoClusters @ [bubbleAt 1000 ''1-8-78'' 1 8 Blue]\<rparr>)
       = (emptyBoard (500, 600))
           \<lparr>bubbles := twoClusters @ [bubbleAt 1000 ''1-8-78'' 1 8 Blue]\<rparr>"
proof -
  let ?s = "bubbleAt 1000 ''2-9-77'' 2 9 Red"
  let ?st = "(emptyBoard (500, 600))\<lparr>bubbles := twoClusters @ [?s]\<rparr>"
  let ?t = "bubbleAt 1000 ''1-8-78'' 1 8 Blue"
  let ?su = "(emptyBoard (500, 600))\<lparr>bubbles := twoClusters @ [?t]\<rparr>"
  have p1: "distinct (map bubbleId (bubbles ?st))" "?s \<in> set (bubbles ?st)" "active ?s"
    by (simp_all add: twoClusters_def bubbleAt_def emptyBoard_def)
  have p2: "distinct (map bubbleId (bubbles ?su))" "?t \<in> set (bubbles ?su)" "active ?t"
    by (simp_all add: twoClusters_def bubbleAt_def emptyBoard_def)
  have b1: "bubbles ?st = twoClusters @ [?s]" and b2: "bubbles ?su = twoClusters @ [?t]"
    by (simp_all add: emptyBoard_def)
  have c1: "color ?s = Red" and c2: "color ?t = Blue" by (simp_all add: bubbleAt_def)
  have f2: "snd (floodFill (twoClusters @ [?t]) Blue [?t] [] [])
      = [?t, bubbleAt 1000 ''1-9'' 1 9 Blue]"
    by (simp add: twoClusters_def bubbleAt_def isNeighbor_def jsRem_def)
  note t1 = checkMatches_removes_region [OF p1, of Medium 1, unfolded b1 c1 ff5w]
  note t2 = checkMatches_removes_region [OF p2, of Medium 1, unfolded b2 c2 f2]
  from t1 have r1: "region (twoClusters @ [?s]) ?s =
      set [?s, bubbleAt 1000 ''2-8'' 2 8 Red, bubbleAt 1000 ''2-7'' 2 7 Red,
           bubbleAt 1000 ''2-6'' 2 6 Red, bubbleAt 1000 ''2-5'' 2 5 Red]"
    and k1: "card (region (twoClusters @ [?s]) ?s) = 5"
    by simp_all
  from t2 have k2: "card (region (twoClusters @ [?t]) ?t) = 2" by simp
  from t1 k1 have "bubbles (checkMatches ?s Medium 1 ?st) =
      map (\<lambda>b. if b \<in> region (twoClusters @ [?s]) ?s then b\<lparr>active := False\<rparr> else b)
        (twoClusters @ [?s])"
    by simp
  then have m1: "map active (bubbles (checkMatches ?s Medium 1 ?st))
       = [True, True, False, False, False, False, True, False]"
    unfolding r1 by (simp add: twoClusters_def bubbleAt_def)
  from t2 k2 have m2: "checkMatches ?t Medium 1 ?su = ?su" by simp
  from k1 m1 k2 m2 show ?thesis by blast
qed

section \<open>Grid occupancy under landing and row growth\<close>

lemma floodFill_skips:
  "\<forall>t\<in>set toCheck. color t \<noteq> k \<Longrightarrow> snd (floodFill bs k toCheck visited matches) = matches"
  by (induction toCheck arbitrary: visited) simp_all

lemma floodFill_lonely:
  assumes "\<forall>b\<in>set bs. active b \<and> bubbleId b \<noteq> bubbleId start \<and> isNeighbor start b
             \<longrightarrow> color b \<noteq> color start"
  shows "snd (floodFill bs (color start) [start] [] []) = [start]"
proof -
  let ?push = "filter (\<lambda>b. active b \<and> bubbleId b \<notin> set [bubbleId start]
                              \<and> isNeighbor start b) bs"
  have "\<forall>t\<in>set (rev ?push @ []). color t \<noteq> color start"
    using assms by auto
  from floodFill_skips [OF this, of bs "[bubbleId start]" "[] @ [start]"]
  show ?thesis by simp
qed

lemma checkMatches_lonely:
  assumes "\<forall>b\<in>set (bubbles st). active b \<and> bubbleId b \<noteq> bubbleId start \<and> isNeighbor start b
             \<longrightarrow> color b \<noteq> color start"
  shows "checkMatches start difficulty bonus st = st"
  using floodFill_lonely [OF assms] by (simp add: checkMatches_def Let_def)

lemma resolveCollision_full_grid:
  assumes full: "\<forall>cell\<in>set gridCells. occupied (bubbles st) cell"
    and lonely: "\<forall>b\<in>set (bubbles st). active b
        \<and> ((row b = 0 \<and> \<bar>col b\<bar> = 1) \<or> (\<bar>row b\<bar> = 1 \<and> (col b = - 1 \<or> col b = 0)))
        \<longrightarrow> color b \<noteq> selectedColor st"
  shows "bubbles (resolveCollision width now difficulty st) =
           bubbles st @
           [\<lparr>bubbleId = showInt 0 @ ''-'' @ showInt 0 @ ''-'' @ showNat now,
             row = 0, col = 0, posX = 0, posY = 0, color = selectedColor st, active = True\<rparr>]"
proof -
  let ?newB = "\<lparr>bubbleId = showInt 0 @ ''-'' @ showInt 0 @ ''-'' @ showNat now,
             row = 0, col = 0, posX = 0, posY = 0, color = selectedColor st, active = True\<rparr>"
  have nf: "nearestFreeCell width (bubbles st) (ballPos st) = (None, 0, 0, 0, 0)"
    using full by (rule nearestFreeCell_full)
  have nb: "isNeighbor n b =
      ((row b = 0 \<and> \<bar>col b\<bar> = 1) \<or> (\<bar>row b\<bar> = 1 \<and> (col b = - 1 \<or> col b = 0)))"
    if "row n = 0 \<and> col n = 0" for n b
    using that by (auto simp: isNeighbor_def Let_def jsRem_def)
  have alone: "checkMatches n difficulty bonus st' = st'"
    if "bubbles st' = bubbles st @ [n]"
      and "row n = 0 \<and> col n = 0 \<and> color n = selectedColor st \<and> active n" for st' bonus n
  proof (rule checkMatches_lonely)
    from that(2) have np: "row n = 0 \<and> col n = 0" by simp
    have "\<not> isNeighbor n n" by (simp add: nb [OF np] np)
    then show "\<forall>b\<in>set (bubbles st'). active b \<and> bubbleId b \<noteq> bubbleId n \<and> isNeighbor n b
             \<longrightarrow> color b \<noteq> color n"
      using lonely that(2) unfolding that(1) by (auto simp: nb [OF np])
  qed
  show ?thesis
    by (cases "activeShotTarget st")
       (simp_all add: resolveCollision_def Let_def nf alone spawnFloatingScore_def)
qed

lemma active_shiftDown [simp]: "active (shiftDown w b) = active b"
  by (simp add: shiftDown_def Let_def)

lemma cellOf_shiftDown [simp]: "cellOf (shiftDown w b) = (row b + 1, col b)"
  by (simp add: shiftDown_def Let_def cellOf_def)

lemma row_shiftDown [simp]: "row (shiftDown w b) = row b + 1"
  by (simp add: shiftDown_def Let_def)

lemma col_shiftDown [simp]: "col (shiftDown w b) = col b"
  by (simp add: shiftDown_def Let_def)

lemma color_shiftDown [simp]: "color (shiftDown w b) = color b"
  by (simp add: shiftDown_def Let_def)

lemma spawnRow_eq:
  "spawnRow w now draw =
     map (\<lambda>c. \<lparr>bubbleId = showNat (now c) @ ''-'' @ showInt 0 @ ''-'' @ showNat c,
               row = 0, col = int c, posX = fst (getBubblePos 0 (int c) w),
               posY = snd (getBubblePos 0 (int c) w), color = draw c, active = True\<rparr>)
       [0..<12]"
  by (simp add: spawnRow_def Let_def jsRem_def GRID_COLS_def)

lemma filter_active_spawnRow: "filter active (spawnRow w now draw) = spawnRow w now draw"
  by (simp add: spawnRow_eq filter_map comp_def)

lemma cells_spawnRow: "map cellOf (spawnRow w now draw) = map (\<lambda>c. (0, int c)) [0..<12]"
  by (simp add: spawnRow_eq cellOf_def comp_def)

lemma addNewRow_occupancyOk:
  assumes ok: "occupancyOk (bubbles st)"
    and rows: "\<forall>b\<in>set (bubbles st). active b \<longrightarrow> 0 \<le> row b"
  shows "occupancyOk (bubbles (addNewRow w now draw st))"
proof -
  let ?act = "filter active (bubbles st)"
  have f: "filter active (bubbles (addNewRow w now draw st))
             = map (shiftDown w) ?act @ spawnRow w now draw"
    by (simp add: bubbles_addNewRow filter_map comp_def filter_active_spawnRow)
  have shifted: "map cellOf (map (shiftDown w) ?act) = map (\<lambda>p. (fst p + 1, snd p)) (map cellOf ?act)"
    by (simp add: comp_def cellOf_def)
  have "distinct (map (\<lambda>p. (fst p + 1, snd p)) (map cellOf ?act))"
    using ok unfolding occupancyOk_def
    by (subst distinct_map) (auto simp: inj_on_def prod_eq_iff)
  then have d1: "distinct (map cellOf (map (shiftDown w) ?act))"
    by (simp only: shifted)
  have d2: "distinct (map cellOf (spawnRow w now draw))"
    by (simp add: cells_spawnRow distinct_map inj_on_def)
  have d3: "set (map cellOf (map (shiftDown w) ?act)) \<inter> set (map cellOf (spawnRow w now draw)) = {}"
    using rows by (auto simp: cells_spawnRow)
  from d1 d2 d3 show ?thesis
    unfolding occupancyOk_def f by simp
qed

lemma bubbles_emptyBoard [simp]: "bubbles (emptyBoard a) = []"
  by (simp add: emptyBoard_def)

lemma bubbles_rowGrowths_Suc:
  "bubbles (rowGrowths w draw (Suc n) st) =
     map (shiftDown w) (bubbles (rowGrowths w draw n st)) @ spawnRow w (\<lambda>_. Suc n) draw"
  by (simp add: bubbles_addNewRow)

lemma grown_members:
  "b \<in> set (bubbles (rowGrowths w draw n (emptyBoard a))) \<Longrightarrow>
     active b \<and> 0 \<le> row b \<and> 0 \<le> col b \<and> col b < 12 \<and> color b = draw (nat (col b))"
proof (induction n arbitrary: b)
  case 0
  then show ?case by simp
next
  case (Suc n)
  from Suc.prems consider b' where "b' \<in> set (bubbles (rowGrowths w draw n (emptyBoard a)))"
      and "b = shiftDown w b'"
    | "b \<in> set (spawnRow w (\<lambda>_. Suc n) draw)"
    unfolding bubbles_rowGrowths_Suc by auto
  then show ?case
  proof cases
    case 1
    with Suc.IH [of b'] show ?thesis by (simp add: shiftDown_def Let_def)
  next
    case 2
    then show ?thesis by (auto simp: spawnRow_eq)
  qed
qed

lemma grown_full:
  "r < n \<Longrightarrow> c < 12 \<Longrightarrow>
     \<exists>b\<in>set (bubbles (rowGrowths w draw n (emptyBoard a))).
        active b \<and> row b = int r \<and> col b = int c"
proof (induction n arbitrary: r)
  case 0
  then show ?case by simp
next
  case (Suc n)
  show ?case
  proof (cases r)
    case 0
    let ?b = "\<lparr>bubbleId = showNat (Suc n) @ ''-'' @ showInt 0 @ ''-'' @ showNat c,
               row = 0, col = int c, posX = fst (getBubblePos 0 (int c) w),
               posY = snd (getBubblePos 0 (int c) w), color = draw c, active = True\<rparr>"
    have "?b \<in> set (spawnRow w (\<lambda>_. Suc n) draw)"
      using Suc.prems(2) by (simp add: spawnRow_eq image_iff)
    then have "?b \<in> set (bubbles (rowGrowths w draw (Suc n) (emptyBoard a)))"
      unfolding bubbles_rowGrowths_Suc by simp
    moreover have "active ?b \<and> row ?b = int r \<and> col ?b = int c" using 0 by simp
    ultimately show ?thesis by blast
  next
    case (Suc r')
    with Suc.prems have "r' < n" by simp
    from Suc.IH [OF this Suc.prems(2)] obtain b where
      b: "b \<in> set (bubbles (rowGrowths w draw n (emptyBoard a)))"
      and p: "active b \<and> row b = int r' \<and> col b = int c"
      by blast
    from b have "shiftDown w b \<in> set (bubbles (rowGrowths w draw (Suc n) (emptyBoard a)))"
      unfolding bubbles_rowGrowths_Suc by simp
    moreover have "active (shiftDown w b) \<and> row (shiftDown w b) = int r
        \<and> col (shiftDown w b) = int c"
      using p Suc by (simp add: shiftDown_def Let_def)
    ultimately show ?thesis by blast
  qed
qed

lemma grown_occupancyOk: "occupancyOk (bubbles (rowGrowths w draw n (emptyBoard a)))"
proof (induction n)
  case 0
  then show ?case by (simp add: occupancyOk_def)
next
  case (Suc n)
  have "occupancyOk (bubbles (addNewRow w (\<lambda>_. Suc n) draw (rowGrowths w draw n (emptyBoard a))))"
    using Suc grown_members [of _ w draw n a] by (intro addNewRow_occupancyOk) auto
  then show ?case by simp
qed

lemma fullBoard_bubbles:
  "bubbles fullBoard
     = bubbles (rowGrowths 1000 (\<lambda>c. if c = 11 then Blue else Red) 14 (emptyBoard (500, 700)))"
  by (simp add: fullBoard_def)

lemma fullBoard_full: "\<forall>cell\<in>set gridCells. occupied (bubbles fullBoard) cell"
proof
  fix cell assume g: "cell \<in> set gridCells"
  obtain r c where cell: "cell = (r, c)" by (cases cell)
  with g have rc: "(r, c) \<in> set gridCells" by simp
  from rc have b: "0 \<le> r" "r < 14" "0 \<le> c" "c < 12"
    by (auto simp: in_gridCells GRID_ROWS_def GRID_COLS_def split: if_splits)
  then have "nat r < 14" "nat c < 12" by simp_all
  from grown_full [OF this, of 1000 "\<lambda>c. if c = 11 then Blue else Red" "(500, 700)"] b
  show "occupied (bubbles fullBoard) cell"
    by (auto simp: occupied_def list_ex_iff cell fullBoard_bubbles)
qed

text \<open>
  C4. Grid occupancy is broken by a shot that lands on a grid whose scanned rows are full.
  After fourteen row growths from an empty board every cell of rows 0 to 13 holds an active
  token and no two active tokens share a cell. The snap-to-grid scan then finds no free
  cell, its result keeps the initial row 0 and column 0, and the blue shot is pushed at cell
  \<open>(0, 0)\<close>, where an active red token is; its neighbours are red, so nothing is removed
  and two active tokens share the cell.
\<close>

theorem full_grid_landing_shares_cell:
  "occupancyOk (bubbles fullBoard)
   \<and> \<not> occupancyOk (bubbles (resolveCollision 1000 99 Medium fullBoard))"
proof
  show "occupancyOk (bubbles fullBoard)"
    unfolding fullBoard_bubbles by (rule grown_occupancyOk)
next
  let ?newB = "\<lparr>bubbleId = showInt 0 @ ''-'' @ showInt 0 @ ''-'' @ showNat 99,
             row = 0, col = 0, posX = 0, posY = 0, color = selectedColor fullBoard,
             active = True\<rparr>"
  have sel: "selectedColor fullBoard = Blue" by (simp add: fullBoard_def)
  have lonely: "\<forall>b\<in>set (bubbles fullBoard). active b
        \<and> ((row b = 0 \<and> \<bar>col b\<bar> = 1) \<or> (\<bar>row b\<bar> = 1 \<and> (col b = - 1 \<or> col b = 0)))
        \<longrightarrow> color b \<noteq> selectedColor fullBoard"
  proof (intro ballI impI)
    fix b assume "b \<in> set (bubbles fullBoard)"
      and n: "active b
        \<and> ((row b = 0 \<and> \<bar>col b\<bar> = 1) \<or> (\<bar>row b\<bar> = 1 \<and> (col b = - 1 \<or> col b = 0)))"
    then have "color b = (if nat (col b) = 11 then Blue else Red)"
      using grown_members [of b 1000 "\<lambda>c. if c = 11 then Blue else Red" 14 "(500, 700)"]
      by (simp add: fullBoard_bubbles)
    with n show "color b \<noteq> selectedColor fullBoard" by (auto simp: sel)
  qed
  have res: "bubbles (resolveCollision 1000 99 Medium fullBoard) = bubbles fullBoard @ [?newB]"
    using fullBoard_full lonely by (rule resolveCollision_full_grid)
  have "(0, 0) \<in> set gridCells" by (simp add: in_gridCells GRID_ROWS_def GRID_COLS_def)
  with fullBoard_full have "occupied (bubbles fullBoard) (0, 0)" by blast
  then obtain b where b: "b \<in> set (bubbles fullBoard)" "active b" "cellOf b = (0, 0)"
    by (auto simp: occupied_def list_ex_iff cellOf_def)
  then have "(0, 0) \<in> set (map cellOf (filter active (bubbles fullBoard)))"
    by force
  then show "\<not> occupancyOk (bubbles (resolveCollision 1000 99 Medium fullBoard))"
    unfolding res occupancyOk_def by (simp add: cellOf_def)
qed

lemma filter_active_deactivate:
  "filter active (deactivate ms bs) = filter (\<lambda>b. b \<notin> set ms) (filter active bs)"
  by (induction bs) (simp_all add: deactivate_def)

lemma occupancyOk_deactivate: "occupancyOk bs \<Longrightarrow> occupancyOk (deactivate ms bs)"
  unfolding occupancyOk_def filter_active_deactivate by (rule distinct_map_filter)

lemma rows_deactivate:
  "list_all (\<lambda>b. 0 \<le> row b) bs \<Longrightarrow> list_all (\<lambda>b. 0 \<le> row b) (deactivate ms bs)"
  by (induction bs) (simp_all add: deactivate_def)

lemma bubbles_checkMatches:
  "bubbles (checkMatches start d bonus st) = bubbles st
   \<or> bubbles (checkMatches start d bonus st)
        = deactivate (snd (floodFill (bubbles st) (color start) [start] [] [])) (bubbles st)"
  by (simp add: checkMatches_def Let_def spawnFloatingScore_def)

lemma occupancyOk_checkMatches:
  "occupancyOk (bubbles st) \<Longrightarrow> occupancyOk (bubbles (checkMatches start d bonus st))"
  using bubbles_checkMatches [of start d bonus st] occupancyOk_deactivate by auto

lemma rows_checkMatches:
  "list_all (\<lambda>b. 0 \<le> row b) (bubbles st) \<Longrightarrow>
     list_all (\<lambda>b. 0 \<le> row b) (bubbles (checkMatches start d bonus st))"
  using bubbles_checkMatches [of start d bonus st] rows_deactivate by auto

lemma occupancyOk_snoc:
  assumes "occupancyOk bs" and "\<not> occupied bs (row n, col n)"
  shows "occupancyOk (bs @ [n])"
proof -
  have "cellOf n \<notin> set (map cellOf (filter active bs))"
    using assms(2) by (auto simp: occupied_def list_ex_iff cellOf_def)
  with assms(1) show ?thesis by (simp add: occupancyOk_def)
qed

lemma rows_addNewRow:
  "list_all (\<lambda>b. 0 \<le> row b) (bubbles st) \<Longrightarrow>
     list_all (\<lambda>b. 0 \<le> row b) (bubbles (addNewRow w now draw st))"
  by (auto simp: bubbles_addNewRow list_all_iff spawnRow_eq)

lemma addNewRow_occupancyOk':
  assumes "occupancyOk (bubbles st)" and "list_all (\<lambda>b. 0 \<le> row b) (bubbles st)"
  shows "occupancyOk (bubbles (addNewRow w now draw st))"
  using assms by (intro addNewRow_occupancyOk) (auto simp: list_all_iff)

lemma resolveCollision_free_cell:
  assumes ok: "occupancyOk (bubbles st)" and rows: "list_all (\<lambda>b. 0 \<le> row b) (bubbles st)"
    and free: "\<exists>cell\<in>set gridCells. \<not> occupied (bubbles st) cell"
  shows "occupancyOk (bubbles (resolveCollision w now d st))
       \<and> list_all (\<lambda>b. 0 \<le> row b) (bubbles (resolveCollision w now d st))"
proof -
  obtain bd br bc bx bY where
    nf: "nearestFreeCell w (bubbles st) (ballPos st) = (bd, br, bc, bx, bY)"
    by (rule nearestFreeCell_cases)
  from scan_first_nearest [OF free, of w "ballPos st"] nf obtain dd where bd: "bd = Some dd"
    unfolding nearestFreeCell_def by auto
  from nearestFreeCell_first_nearest [OF nf [unfolded bd]] obtain us vs where
    g: "gridCells = us @ (br, bc) # vs" and fr: "\<not> occupied (bubbles st) (br, bc)"
    by blast
  have cell: "(br, bc) \<in> set gridCells" by (simp add: g)
  from cell have r0: "0 \<le> br" by (simp add: in_gridCells)
  let ?st2 = "case activeShotTarget st of
                None \<Rightarrow> st\<lparr>isFlying := False\<rparr>
              | Some target \<Rightarrow>
                  spawnFloatingScore bx (bY - 40) None
                    (accuracyColor (accuracyCalculation (activeShotTarget st) (bx, bY)))
                    (Some (accuracyLabel (accuracyCalculation (activeShotTarget st) (bx, bY))))
                    (accuracyBonus (accuracyCalculation (activeShotTarget st) (bx, bY)) > 1)
                    (st\<lparr>isFlying := False\<rparr>)"
  let ?newB = "\<lparr>bubbleId = showInt br @ ''-'' @ showInt bc @ ''-'' @ showNat now,
                  row = br, col = bc, posX = bx, posY = bY,
                  color = selectedColor ?st2, active = True\<rparr>"
  let ?st3 = "?st2\<lparr>bubbles := bubbles ?st2 @ [?newB]\<rparr>"
  have b2: "bubbles ?st2 = bubbles st"
    by (simp add: spawnFloatingScore_def split: option.splits)
  have b3: "bubbles ?st3 = bubbles st @ [?newB]" by (simp add: b2)
  have ok3: "occupancyOk (bubbles ?st3)"
    unfolding b3 using ok fr by (intro occupancyOk_snoc) simp_all
  have rows3: "list_all (\<lambda>b. 0 \<le> row b) (bubbles ?st3)"
    unfolding b3 using rows r0 by simp
  have res: "bubbles (resolveCollision w now d st)
      = bubbles (checkMatches ?newB d
           (accuracyBonus (accuracyCalculation (activeShotTarget st) (bx, bY))) ?st3)"
    by (simp add: resolveCollision_def Let_def nf split: option.splits)
  show ?thesis
    unfolding res using ok3 rows3 occupancyOk_checkMatches rows_checkMatches by blast
qed

text \<open>
  X1. While the grid has no two active tokens in a cell and no token in a negative row, row
  growth, match removal, a skip and a release keep both properties, and so does the
  resolution of a collision whenever some cell of the scanned rows is free.
\<close>

theorem occupancy_preserved_while_a_cell_is_free:
  assumes "occupancyOk (bubbles st)" and "list_all (\<lambda>b. 0 \<le> row b) (bubbles st)"
  shows "occupancyOk (bubbles (addNewRow w nowf draw st))
     \<and> list_all (\<lambda>b. 0 \<le> row b) (bubbles (addNewRow w nowf draw st))
     \<and> occupancyOk (bubbles (checkMatches start d bonus st))
     \<and> list_all (\<lambda>b. 0 \<le> row b) (bubbles (checkMatches start d bonus st))
     \<and> occupancyOk (bubbles (skipTurn canvas d nowf draw st))
     \<and> list_all (\<lambda>b. 0 \<le> row b) (bubbles (skipTurn canvas d nowf draw st))
     \<and> occupancyOk (bubbles (releaseShot locked w perfNow d nowf draw st))
     \<and> list_all (\<lambda>b. 0 \<le> row b) (bubbles (releaseShot locked w perfNow d nowf draw st))
     \<and> ((\<exists>cell\<in>set gridCells. \<not> occupied (bubbles st) cell) \<longrightarrow>
           occupancyOk (bubbles (resolveCollision w now d st))
         \<and> list_all (\<lambda>b. 0 \<le> row b) (bubbles (resolveCollision w now d st)))"
proof -
  have a: "occupancyOk (bubbles (addNewRow w' nowf draw st'))
      \<and> list_all (\<lambda>b. 0 \<le> row b) (bubbles (addNewRow w' nowf draw st'))"
    if "bubbles st' = bubbles st" for st' w'
    using assms addNewRow_occupancyOk' [of st' w' nowf draw] rows_addNewRow [of st' w' nowf draw]
    by (simp add: that)
  have s: "occupancyOk (bubbles (skipTurn canvas d nowf draw st))
     \<and> list_all (\<lambda>b. 0 \<le> row b) (bubbles (skipTurn canvas d nowf draw st))"
    using assms a by (simp add: skipTurn_def Let_def split: option.splits)
  have r: "occupancyOk (bubbles (releaseShot locked w perfNow d nowf draw st))
     \<and> list_all (\<lambda>b. 0 \<le> row b) (bubbles (releaseShot locked w perfNow d nowf draw st))"
    using assms a by (simp add: releaseShot_def Let_def)
  from a [of st w] s r assms occupancyOk_checkMatches [of st start d bonus]
    rows_checkMatches [of st start d bonus] resolveCollision_free_cell [OF assms, of w now d]
  show ?thesis by blast
qed

theorem occupancy_preserved_witness:
  "occupancyOk (bubbles (addNewRow 1000 (\<lambda>c. 7) (\<lambda>c. Red)
      ((emptyBoard (500, 600))\<lparr>bubbles := twoClusters\<rparr>)))
   \<and> occupancyOk (bubbles (resolveCollision 1000 99 Medium
      ((emptyBoard (500, 600))\<lparr>bubbles := twoClusters\<rparr>)))"
proof -
  let ?st = "(emptyBoard (500, 600))\<lparr>bubbles := twoClusters\<rparr>"
  have p: "occupancyOk (bubbles ?st)" "list_all (\<lambda>b. 0 \<le> row b) (bubbles ?st)"
    by (simp_all add: occupancyOk_def twoClusters_def bubbleAt_def cellOf_def emptyBoard_def)
  have "(5, 5) \<in> set gridCells" by (simp add: in_gridCells GRID_ROWS_def GRID_COLS_def)
  moreover have "\<not> occupied (bubbles ?st) (5, 5)"
    by (simp add: occupied_def twoClusters_def bubbleAt_def emptyBoard_def)
  ultimately have f: "\<exists>cell\<in>set gridCells. \<not> occupied (bubbles ?st) cell" by blast
  from occupancy_preserved_while_a_cell_is_free [OF p, of 1000 "\<lambda>c. 7" "\<lambda>c. Red" _ Medium _ _ _ _ 99] f
  show ?thesis by blast
qed

end
